theory Spec2Isabelle
  imports Main
begin

section \<open>Exceptions, values and the world\<close>

text \<open>
  The page objects talk to a browser through Selenium and read the wall clock. Both are
  outside the repository, so the model threads an explicit world through every operation:
  the clock (\<open>time.time()\<close>, in milliseconds) and the log of the effects performed so far.
  A Python exception is a value of \<open>exn\<close>, its class and its message; an operation that
  may raise returns \<open>exn + 'a\<close>, with \<open>Inl\<close> the exception.
\<close>

datatype strategy = ID | CSS_SELECTOR | XPATH | TAG_NAME

type_synonym locator = "strategy \<times> string"

type_synonym element = nat

datatype exn_class =
    StaleElementReferenceException
  | NoSuchElementException
  | TimeoutException
  | WebDriverException
  | AttributeError
  | Exception

text \<open>
  The messages of the repository's own exceptions are f-strings; the model keeps the
  interpolated values instead of the formatted text:
  \<^item> \<open>ElementNotFound locator\<close> is \<open>f"Element not found: {locator}"\<close>;
  \<^item> \<open>CannotFindDepartmentFilter attempts elapsed\<close> is "Cannot find department filter
    after ... attempts (...s). Page loading issue!", the elapsed time in milliseconds;
  \<^item> \<open>DepartmentStillAll elapsed last\<close> is "TIMEOUT: Department still 'All' after ...s (last
    value: '...'). ...".
\<close>

datatype message =
    Text string
  | ElementNotFound locator
  | CannotFindDepartmentFilter nat nat
  | DepartmentStillAll nat "string option"

datatype exn = Exn (class_of: exn_class) (message_of: message)

datatype pyvalue =
    Element element
  | Elements "element list"
  | Number int
  | Flag bool
  | NoneValue

fun truthy_value :: "pyvalue \<Rightarrow> bool" where
  "truthy_value (Element e) = True"
| "truthy_value (Elements es) = (es \<noteq> [])"
| "truthy_value (Number n) = (n \<noteq> 0)"
| "truthy_value (Flag b) = b"
| "truthy_value NoneValue = False"

text \<open>The expected conditions of \<open>selenium.webdriver.support.expected_conditions\<close> in use.\<close>

datatype condition =
    presence_of_element_located locator
  | presence_of_all_elements_located locator
  | visibility_of_element_located locator
  | visibility_of_any_elements_located locator
  | element_to_be_clickable locator

text \<open>
  The JavaScript handed to \<open>execute_script\<close>, statement by statement, on
  \<open>arguments[0]\<close>: \<open>return arguments[0].offsetTop;\<close>,
  \<open>arguments[0].scrollTop = arguments[1] - 100;\<close>,
  \<open>element.dispatchEvent(new MouseEvent(type, ...))\<close> and \<open>element.click()\<close>.
\<close>

datatype js_stmt =
    ReturnOffsetTop
  | SetScrollTop
  | DispatchMouseEvent string
  | ElementClick

type_synonym script = "js_stmt list"

text \<open>
  A job card, as the stability detector reads it: what
  \<open>job.find_element(*JOB_DEPARTMENT).text\<close> and
  \<open>job.find_element(*JOB_LOCATION).text\<close> give (a text, or an exception).
\<close>

record card =
  department_text :: "exn + string"
  location_text :: "exn + string"

datatype event =
    Slept nat
  | DepartmentRead "exn + string"
  | JobsSampled "exn + card list"
  | Probed condition "exn + pyvalue"
  | Clicked pyvalue "exn + unit"
  | ScriptRun script "pyvalue list" "exn + pyvalue"

record world =
  now :: nat
  log :: "event list"

text \<open>
  The browser is a black box: what a driver call answers may depend on the time and on
  everything done so far, so each answer is a function of the world, and so is the time
  the call takes.
\<close>

record env =
  latency :: "world \<Rightarrow> nat"
  department_control :: "world \<Rightarrow> exn + string"
  job_items :: "world \<Rightarrow> exn + card list"
  evaluate :: "condition \<Rightarrow> world \<Rightarrow> exn + pyvalue"
  click_outcome :: "pyvalue \<Rightarrow> world \<Rightarrow> exn + unit"
  script_outcome :: "script \<Rightarrow> pyvalue list \<Rightarrow> world \<Rightarrow> exn + pyvalue"

definition sleep :: "nat \<Rightarrow> world \<Rightarrow> world" where
  "sleep ms w = w\<lparr>now := now w + ms, log := log w @ [Slept ms]\<rparr>"

text \<open>One driver call: the clock advances by the call's latency, the log gets the event.\<close>

definition driver_call :: "env \<Rightarrow> event \<Rightarrow> world \<Rightarrow> world" where
  "driver_call env ev w = w\<lparr>now := now w + latency env w, log := log w @ [ev]\<rparr>"

text \<open>The events a run added to the log.\<close>

definition since :: "world \<Rightarrow> world \<Rightarrow> event list" where
  "since w w' = drop (length (log w)) (log w')"

datatype ('r, 's) iteration = Return 'r | Continue 's

section \<open>Python strings\<close>

text \<open>
  A Python \<open>str\<close> is modelled as a HOL string whose characters are the code points below
  256 (the decoration of the sentinel, U+00D7, is \<open>CHR 0xD7\<close>). \<open>sub in s\<close> is
  \<open>str_contains s sub\<close>; \<open>s.strip()\<close> drops the leading and trailing characters for which
  \<open>str.isspace\<close> holds; \<open>truthy\<close> is the truth value of an optional string argument
  (\<open>None\<close> and \<open>""\<close> are false).
\<close>

fun str_contains :: "string \<Rightarrow> string \<Rightarrow> bool" where
  "str_contains [] sub = (sub = [])"
| "str_contains (c # cs) sub = (take (length sub) (c # cs) = sub \<or> str_contains cs sub)"

definition isspace :: "char \<Rightarrow> bool" where
  "isspace c = ((of_char c :: nat) \<in> {9, 10, 11, 12, 13, 28, 29, 30, 31, 32, 133, 160})"

definition strip :: "string \<Rightarrow> string" where
  "strip s = rev (dropWhile isspace (rev (dropWhile isspace s)))"

fun truthy :: "string option \<Rightarrow> bool" where
  "truthy None = False"
| "truthy (Some s) = (s \<noteq> [])"

section \<open>The stale-element retry decorator\<close>

text \<open>
  \<open>retry_on_stale_element(max_attempts)(func)\<close>: the wrapper runs
  \<open>for attempt in range(max_attempts)\<close>, returns what \<open>func\<close> returns, catches only
  \<open>StaleElementReferenceException\<close>, re-raises it on the last attempt and sleeps half a
  second otherwise; after the loop it returns \<open>None\<close>. The wrapped operation is any
  function on the world. Besides the result and the world the model returns the number of
  times the operation was invoked.
\<close>

definition py_range :: "int \<Rightarrow> int list" where
  "py_range n = map int [0..<nat n]"

fun retry_attempts ::
  "int \<Rightarrow> (world \<Rightarrow> (exn + 'a) \<times> world) \<Rightarrow> int list \<Rightarrow> nat \<Rightarrow> world
     \<Rightarrow> (exn + 'a option) \<times> nat \<times> world" where
  "retry_attempts max_attempts func [] calls w = (Inr None, calls, w)"
| "retry_attempts max_attempts func (attempt # rest) calls w =
     (case func w of
        (Inr v, w') \<Rightarrow> (Inr (Some v), Suc calls, w')
      | (Inl e, w') \<Rightarrow>
          if class_of e = StaleElementReferenceException then
            (if attempt = max_attempts - 1 then (Inl e, Suc calls, w')
             else retry_attempts max_attempts func rest (Suc calls) (sleep 500 w'))
          else (Inl e, Suc calls, w'))"

definition retry_on_stale_element ::
  "int \<Rightarrow> (world \<Rightarrow> (exn + 'a) \<times> world) \<Rightarrow> world \<Rightarrow> (exn + 'a option) \<times> nat \<times> world" where
  "retry_on_stale_element max_attempts func w =
     retry_attempts max_attempts func (py_range max_attempts) 0 w"

section \<open>The auto-selection gate\<close>

text \<open>
  \<open>self.driver.find_element(By.ID, "select2-filter-by-department-container").text\<close>:
  one answer of the driver, logged with what it gave.
\<close>

definition read_department :: "env \<Rightarrow> world \<Rightarrow> (exn + string) \<times> world" where
  "read_department env w =
     (let r = department_control env w in (r, driver_call env (DepartmentRead r) w))"

record gate_vars =
  last_department_text :: "string option"
  consecutive_element_failures :: nat

definition max_element_failures :: nat where
  "max_element_failures = 10"

text \<open>One pass through the body of the \<open>while\<close> loop of \<open>_ensure_department_not_all\<close>.\<close>

definition gate_body ::
  "env \<Rightarrow> nat \<Rightarrow> gate_vars \<times> world
     \<Rightarrow> ((exn + bool) \<times> world, gate_vars \<times> world) iteration" where
  "gate_body env start_time st =
     (case st of (v, w) \<Rightarrow>
        (case read_department env w of
           (Inr raw, w1) \<Rightarrow>
             (let department_text = strip raw;
                  v1 = v\<lparr>consecutive_element_failures := 0,
                         last_department_text := Some department_text\<rparr>
              in if department_text \<noteq> [] \<and> \<not> str_contains department_text ''All''
                 then Return (Inr True, w1)
                 else Continue (v1, sleep 1000 w1))
         | (Inl e, w1) \<Rightarrow>
             (let v1 = v\<lparr>consecutive_element_failures := consecutive_element_failures v + 1\<rparr>
              in if consecutive_element_failures v1 \<ge> max_element_failures
                 then Return (Inl (Exn Exception
                                (CannotFindDepartmentFilter (consecutive_element_failures v1)
                                   (now w1 - start_time))), w1)
                 else Continue (v1, sleep 1000 w1))))"

function gate_loop ::
  "env \<Rightarrow> nat \<Rightarrow> nat \<Rightarrow> gate_vars \<times> world \<Rightarrow> (exn + bool) \<times> world" where
  "gate_loop env start_time max_wait st =
     (if now (snd st) < max_wait then
        (case gate_body env start_time st of
           Return r \<Rightarrow> r
         | Continue st' \<Rightarrow> gate_loop env start_time max_wait st')
      else (Inl (Exn Exception
              (DepartmentStillAll (now (snd st) - start_time) (last_department_text (fst st)))),
            snd st))"
  by pat_completeness auto
termination
proof (relation "measure (\<lambda>(env, start_time, max_wait, st). max_wait - now (snd st))")
  show "wf (measure (\<lambda>(env, start_time, max_wait, st). max_wait - now (snd st)))"
    by simp
next
  fix env :: env and start_time max_wait :: nat and st st' :: "gate_vars \<times> world"
  assume "now (snd st) < max_wait" and "gate_body env start_time st = Continue st'"
  then show "((env, start_time, max_wait, st'), (env, start_time, max_wait, st))
               \<in> measure (\<lambda>(env, start_time, max_wait, st). max_wait - now (snd st))"
    by (cases st)
       (auto simp: gate_body_def read_department_def driver_call_def sleep_def Let_def
             split: sum.splits if_splits)
qed

declare gate_loop.simps [simp del]

text \<open>\<open>_ensure_department_not_all(timeout)\<close>, with the timeout in seconds.\<close>

definition ensure_department_not_all :: "env \<Rightarrow> nat \<Rightarrow> world \<Rightarrow> (exn + bool) \<times> world" where
  "ensure_department_not_all env timeout w =
     gate_loop env (now w) (now w + 1000 * timeout)
       (\<lparr>last_department_text = None, consecutive_element_failures = 0\<rparr>, w)"

section \<open>The list-stability detector\<close>

definition WAIT_TIME :: nat where
  "WAIT_TIME = 60"

text \<open>\<open>self.driver.find_elements(*self.JOB_ITEMS)\<close>, with what each card gives when read.\<close>

definition sample_jobs :: "env \<Rightarrow> world \<Rightarrow> (exn + card list) \<times> world" where
  "sample_jobs env w =
     (let r = job_items env w in (r, driver_call env (JobsSampled r) w))"

text \<open>
  The body of the \<open>try\<close> in the loop over the cards. \<open>expected in department\<close> is only
  evaluated when the department was read, so the \<open>None\<close> case of \<open>py_in\<close> is never taken.
\<close>

fun py_in :: "string option \<Rightarrow> string option \<Rightarrow> bool" where
  "py_in (Some sub) (Some s) = str_contains s sub"
| "py_in sub s = False"

definition job_matches :: "string option \<Rightarrow> string option \<Rightarrow> card \<Rightarrow> exn + bool" where
  "job_matches expected_department expected_location job =
     (case (if truthy expected_department then map_sum id Some (department_text job)
            else Inr None) of
        Inl e \<Rightarrow> Inl e
      | Inr department \<Rightarrow>
          (case (if truthy expected_location then map_sum id Some (location_text job)
                 else Inr None) of
             Inl e \<Rightarrow> Inl e
           | Inr location \<Rightarrow>
               (let department_match =
                      (\<not> truthy expected_department \<or> py_in expected_department department);
                    location_match =
                      (\<not> truthy expected_location \<or> expected_location = location)
                in Inr (department_match \<and> location_match))))"

text \<open>The \<open>for job in jobs\<close> loop: \<open>break\<close> on the first match, \<open>continue\<close> on an exception.\<close>

fun any_job_matches :: "string option \<Rightarrow> string option \<Rightarrow> card list \<Rightarrow> bool" where
  "any_job_matches expected_department expected_location [] = False"
| "any_job_matches expected_department expected_location (job # jobs) =
     (case job_matches expected_department expected_location job of
        Inr True \<Rightarrow> True
      | Inr False \<Rightarrow> any_job_matches expected_department expected_location jobs
      | Inl e \<Rightarrow> any_job_matches expected_department expected_location jobs)"

record stable_vars =
  stable_count :: "nat option"
  stable_checks :: nat

text \<open>"Track stability", without criteria and with criteria.\<close>

definition track_plain :: "stable_vars \<Rightarrow> nat \<Rightarrow> stable_vars" where
  "track_plain v job_count =
     (case stable_count v of
        None \<Rightarrow> v\<lparr>stable_count := Some job_count, stable_checks := 1\<rparr>
      | Some c \<Rightarrow>
          if job_count = c \<and> job_count > 0 then v\<lparr>stable_checks := stable_checks v + 1\<rparr>
          else v\<lparr>stable_count := Some job_count, stable_checks := 1\<rparr>)"

definition track_criteria :: "stable_vars \<Rightarrow> nat \<Rightarrow> stable_vars" where
  "track_criteria v job_count =
     (case stable_count v of
        None \<Rightarrow> v\<lparr>stable_count := Some job_count, stable_checks := 1\<rparr>
      | Some c \<Rightarrow>
          if job_count = c then v\<lparr>stable_checks := stable_checks v + 1\<rparr>
          else v\<lparr>stable_count := Some job_count, stable_checks := 1\<rparr>)"

text \<open>One pass through the body of the \<open>while\<close> loop of \<open>_wait_for_jobs_stable\<close>.\<close>

definition stable_body ::
  "env \<Rightarrow> string option \<Rightarrow> string option \<Rightarrow> int \<Rightarrow> stable_vars \<times> world
     \<Rightarrow> ((exn + bool) \<times> world, stable_vars \<times> world) iteration" where
  "stable_body env expected_department expected_location max_stable_checks st =
     (case st of (v, w) \<Rightarrow>
        (case sample_jobs env w of
           (Inl e, w1) \<Rightarrow> Return (Inl e, w1)
         | (Inr jobs, w1) \<Rightarrow>
             (let job_count = length jobs in
                if \<not> truthy expected_department \<and> \<not> truthy expected_location then
                  (let v1 = track_plain v job_count in
                     if int (stable_checks v1) \<ge> max_stable_checks then Return (Inr True, w1)
                     else Continue (v1, sleep 1000 w1))
                else
                  (let matches = any_job_matches expected_department expected_location jobs;
                       v1 = track_criteria v job_count in
                     if matches \<and> int (stable_checks v1) \<ge> max_stable_checks
                     then Return (Inr True, w1)
                     else Continue (v1, sleep 1000 w1)))))"

function stable_loop ::
  "env \<Rightarrow> string option \<Rightarrow> string option \<Rightarrow> int \<Rightarrow> nat \<Rightarrow> stable_vars \<times> world
     \<Rightarrow> (exn + bool) \<times> world" where
  "stable_loop env expected_department expected_location max_stable_checks timeout st =
     (if now (snd st) < timeout then
        (case stable_body env expected_department expected_location max_stable_checks st of
           Return r \<Rightarrow> r
         | Continue st' \<Rightarrow>
             stable_loop env expected_department expected_location max_stable_checks timeout st')
      else (Inr False, snd st))"
  by pat_completeness auto
termination
proof (relation "measure (\<lambda>(env, ed, el, m, timeout, st). timeout - now (snd st))")
  show "wf (measure (\<lambda>(env, ed, el, m, timeout, st). timeout - now (snd st)))"
    by simp
next
  fix env :: env and ed el :: "string option" and m :: int and timeout :: nat
    and st st' :: "stable_vars \<times> world"
  assume "now (snd st) < timeout" and "stable_body env ed el m st = Continue st'"
  then show "((env, ed, el, m, timeout, st'), (env, ed, el, m, timeout, st))
               \<in> measure (\<lambda>(env, ed, el, m, timeout, st). timeout - now (snd st))"
    by (cases st)
       (auto simp: stable_body_def sample_jobs_def driver_call_def sleep_def Let_def
             split: sum.splits if_splits)
qed

declare stable_loop.simps [simp del]

definition wait_for_jobs_stable ::
  "env \<Rightarrow> string option \<Rightarrow> string option \<Rightarrow> int \<Rightarrow> world \<Rightarrow> (exn + bool) \<times> world" where
  "wait_for_jobs_stable env expected_department expected_location max_stable_checks w =
     stable_loop env expected_department expected_location max_stable_checks
       (now w + 1000 * WAIT_TIME) (\<lparr>stable_count = None, stable_checks = 0\<rparr>, w)"

section \<open>The locator facade\<close>

text \<open>
  \<open>WebDriverWait(driver, timeout).until(method)\<close> belongs to Selenium, not to the
  repository. Modelled from the spec (section 4.1): it polls at a fixed short interval
  (Selenium's default, half a second) until the condition holds or the timeout elapses,
  and fails on timeout. As in Selenium, a poll that raises \<open>NoSuchElementException\<close>
  counts as "not yet", any other exception propagates, only a truthy value is returned,
  and the failure on timeout is a \<open>TimeoutException\<close>.
\<close>

definition call_condition :: "env \<Rightarrow> condition \<Rightarrow> world \<Rightarrow> (exn + pyvalue) \<times> world" where
  "call_condition env cond w =
     (let r = evaluate env cond w in (r, driver_call env (Probed cond r) w))"

definition until_pause :: "nat \<Rightarrow> world \<Rightarrow> ((exn + pyvalue) \<times> world, world) iteration" where
  "until_pause end_time w1 =
     (let w2 = sleep 500 w1
      in if now w2 > end_time then Return (Inl (Exn TimeoutException (Text [])), w2)
         else Continue w2)"

definition until_body ::
  "env \<Rightarrow> condition \<Rightarrow> nat \<Rightarrow> world \<Rightarrow> ((exn + pyvalue) \<times> world, world) iteration" where
  "until_body env cond end_time w =
     (case call_condition env cond w of
        (Inr v, w1) \<Rightarrow> if truthy_value v then Return (Inr v, w1) else until_pause end_time w1
      | (Inl e, w1) \<Rightarrow>
          if class_of e = NoSuchElementException then until_pause end_time w1
          else Return (Inl e, w1))"

function until_loop :: "env \<Rightarrow> condition \<Rightarrow> nat \<Rightarrow> world \<Rightarrow> (exn + pyvalue) \<times> world" where
  "until_loop env cond end_time w =
     (case until_body env cond end_time w of
        Return r \<Rightarrow> r
      | Continue w' \<Rightarrow> until_loop env cond end_time w')"
  by pat_completeness auto
termination
proof (relation "measure (\<lambda>(env, cond, end_time, w). Suc end_time - now w)")
  show "wf (measure (\<lambda>(env, cond, end_time, w). Suc end_time - now w))"
    by simp
next
  fix env :: env and cond :: condition and end_time :: nat and w w' :: world
  assume "until_body env cond end_time w = Continue w'"
  then show "((env, cond, end_time, w'), (env, cond, end_time, w))
               \<in> measure (\<lambda>(env, cond, end_time, w). Suc end_time - now w)"
    by (auto simp: until_body_def until_pause_def call_condition_def driver_call_def sleep_def
                   Let_def
             split: sum.splits if_splits)
qed

declare until_loop.simps [simp del]

definition until :: "env \<Rightarrow> nat \<Rightarrow> condition \<Rightarrow> world \<Rightarrow> (exn + pyvalue) \<times> world" where
  "until env timeout cond w = until_loop env cond (now w + 1000 * timeout) w"

text \<open>\<open>BasePage.find_element\<close> and \<open>BasePage.find_elements\<close>.\<close>

definition find_element :: "env \<Rightarrow> locator \<Rightarrow> nat \<Rightarrow> world \<Rightarrow> (exn + pyvalue) \<times> world" where
  "find_element env locator timeout w =
     (case until env timeout (presence_of_element_located locator) w of
        (Inr v, w') \<Rightarrow> (Inr v, w')
      | (Inl e, w') \<Rightarrow>
          if class_of e = TimeoutException
          then (Inl (Exn NoSuchElementException (ElementNotFound locator)), w')
          else (Inl e, w'))"

definition find_elements :: "env \<Rightarrow> locator \<Rightarrow> nat \<Rightarrow> world \<Rightarrow> (exn + pyvalue) \<times> world" where
  "find_elements env locator timeout w =
     until env timeout (presence_of_all_elements_located locator) w"

text \<open>Sequencing: an exception ends the method, a result is passed on.\<close>

definition then_do ::
  "(exn + 'a) \<times> world \<Rightarrow> ('a \<Rightarrow> world \<Rightarrow> (exn + 'b) \<times> world) \<Rightarrow> (exn + 'b) \<times> world" where
  "then_do m f = (case m of (Inl e, w) \<Rightarrow> (Inl e, w) | (Inr x, w) \<Rightarrow> f x w)"

text \<open>\<open>element.click()\<close> and \<open>driver.execute_script(script, *args)\<close>.\<close>

definition native_click :: "env \<Rightarrow> pyvalue \<Rightarrow> world \<Rightarrow> (exn + unit) \<times> world" where
  "native_click env element w =
     (let r = click_outcome env element w in (r, driver_call env (Clicked element r) w))"

definition execute_script ::
  "env \<Rightarrow> script \<Rightarrow> pyvalue list \<Rightarrow> world \<Rightarrow> (exn + pyvalue) \<times> world" where
  "execute_script env js args w =
     (let r = script_outcome env js args w in (r, driver_call env (ScriptRun js args r) w))"

text \<open>\<open>BasePage.click\<close>.\<close>

definition click :: "env \<Rightarrow> locator \<Rightarrow> nat \<Rightarrow> world \<Rightarrow> (exn + unit) \<times> world" where
  "click env locator timeout w =
     then_do (until env timeout (element_to_be_clickable locator) w)
       (\<lambda>element w. native_click env element w)"

section \<open>The dropdown filters\<close>

definition LOCATION_FILTER :: locator where
  "LOCATION_FILTER = (ID, ''select2-filter-by-location-container'')"

definition DEPARTMENT_FILTER :: locator where
  "DEPARTMENT_FILTER = (ID, ''select2-filter-by-department-container'')"

definition JOB_ITEMS :: locator where
  "JOB_ITEMS = (CSS_SELECTOR, ''.position-list-item'')"

definition options_panel :: locator where
  "options_panel = (CSS_SELECTOR, ''.select2-results__options'')"

definition options :: locator where
  "options = (CSS_SELECTOR, ''.select2-results__options li'')"

definition location_locator :: "string \<Rightarrow> locator" where
  "location_locator location =
     (CSS_SELECTOR, ''li[data-select2-id*='' @ [CHR 0x27] @ location @ [CHR 0x27] @ '']'')"

definition department_locator :: "string \<Rightarrow> locator" where
  "department_locator department =
     (XPATH, ''//li[contains(text(),'' @ [CHR 0x27] @ department @ [CHR 0x27] @ '')]'')"

text \<open>The three scripts of the filters: read the offset, scroll the panel, activate.\<close>

definition offset_script :: script where
  "offset_script = [ReturnOffsetTop]"

definition scroll_script :: script where
  "scroll_script = [SetScrollTop]"

definition activate_script :: script where
  "activate_script =
     [DispatchMouseEvent ''mousedown'', DispatchMouseEvent ''mouseup'', ElementClick]"

definition filter_by_location ::
  "env \<Rightarrow> string \<Rightarrow> string \<Rightarrow> world \<Rightarrow> (exn + unit) \<times> world" where
  "filter_by_location env location expected_department w =
     then_do (ensure_department_not_all env 10 w) (\<lambda>_ w.
     then_do (until env WAIT_TIME (visibility_of_element_located LOCATION_FILTER) w) (\<lambda>_ w.
     then_do (until env WAIT_TIME (element_to_be_clickable LOCATION_FILTER) w) (\<lambda>_ w.
     then_do (click env LOCATION_FILTER 15 w) (\<lambda>_ w.
     then_do (until env WAIT_TIME (visibility_of_element_located options_panel) w)
       (\<lambda>dropdown_container w.
     then_do (until env WAIT_TIME (presence_of_all_elements_located options) w) (\<lambda>_ w.
     then_do (until env WAIT_TIME (visibility_of_any_elements_located options) w) (\<lambda>_ w.
     then_do (until env WAIT_TIME
                (presence_of_element_located (location_locator location)) w)
       (\<lambda>location_option w.
     then_do (until env WAIT_TIME (element_to_be_clickable (location_locator location)) w)
       (\<lambda>_ w.
     then_do (execute_script env offset_script [location_option] w) (\<lambda>option_position w.
     then_do (execute_script env scroll_script [dropdown_container, option_position] w)
       (\<lambda>_ w.
     then_do (execute_script env activate_script [location_option] w) (\<lambda>_ w.
     then_do (until env WAIT_TIME (presence_of_all_elements_located JOB_ITEMS) w) (\<lambda>_ w.
     then_do (until env WAIT_TIME (element_to_be_clickable JOB_ITEMS) w) (\<lambda>_ w.
     then_do (wait_for_jobs_stable env (Some expected_department) (Some location) 3 w)
       (\<lambda>_ w. (Inr (), w))))))))))))))))"

definition filter_by_department :: "env \<Rightarrow> string \<Rightarrow> world \<Rightarrow> (exn + unit) \<times> world" where
  "filter_by_department env department w =
     then_do (click env DEPARTMENT_FILTER 15 w) (\<lambda>_ w.
     then_do (until env WAIT_TIME (visibility_of_element_located options_panel) w)
       (\<lambda>dropdown_container w.
     then_do (until env WAIT_TIME (presence_of_all_elements_located options) w) (\<lambda>_ w.
     then_do (until env WAIT_TIME
                (presence_of_element_located (department_locator department)) w)
       (\<lambda>department_option w.
     then_do (execute_script env offset_script [department_option] w) (\<lambda>option_position w.
     then_do (execute_script env scroll_script [dropdown_container, option_position] w)
       (\<lambda>_ w.
     then_do (execute_script env activate_script [department_option] w) (\<lambda>_ w.
     then_do (until env WAIT_TIME (presence_of_all_elements_located JOB_ITEMS) w) (\<lambda>_ w.
     then_do (until env WAIT_TIME (element_to_be_clickable JOB_ITEMS) w) (\<lambda>_ w.
     then_do (wait_for_jobs_stable env (Some department) None 2 w)
       (\<lambda>_ w. (Inr (), w)))))))))))"

section \<open>Observations of a run\<close>

text \<open>
  What the gate observed: the answers of its reads, in order. A read shows the selection
  when it gave a text that, stripped, is non-empty and does not contain "All".
  \<open>failure_run\<close> is the number of failed reads at the end of a sequence of reads, that is
  the number of consecutive failures not followed by a successful read.
\<close>

fun department_reads :: "event list \<Rightarrow> (exn + string) list" where
  "department_reads [] = []"
| "department_reads (DepartmentRead r # es) = r # department_reads es"
| "department_reads (e # es) = department_reads es"

fun selection_shown :: "exn + string \<Rightarrow> bool" where
  "selection_shown (Inl e) = False"
| "selection_shown (Inr raw) = (strip raw \<noteq> [] \<and> \<not> str_contains (strip raw) ''All'')"

definition failure_run :: "(exn + string) list \<Rightarrow> nat" where
  "failure_run rs = length (takeWhile isl (rev rs))"

definition count_failure :: "nat \<Rightarrow> exn + string \<Rightarrow> nat" where
  "count_failure k x = (if isl x then Suc k else 0)"

definition gate_observed :: "nat \<Rightarrow> nat \<Rightarrow> event list \<Rightarrow> exn + bool \<Rightarrow> nat \<Rightarrow> bool" where
  "gate_observed s k es r t =
     (let rs = department_reads es in
        (\<forall>x\<in>set (butlast rs). \<not> selection_shown x) \<and>
        (\<forall>n<length rs. foldl count_failure k (take n rs) < 10) \<and>
        ((r = Inr True \<and> rs \<noteq> [] \<and> selection_shown (last rs)
            \<and> last es = DepartmentRead (last rs)) \<or>
         (r = Inl (Exn Exception (CannotFindDepartmentFilter 10 (t - s))) \<and> rs \<noteq> []
            \<and> \<not> selection_shown (last rs) \<and> foldl count_failure k rs = 10
            \<and> last es = DepartmentRead (last rs)) \<or>
         ((\<exists>lastv. r = Inl (Exn Exception (DepartmentStillAll (t - s) lastv)))
            \<and> (\<forall>x\<in>set rs. \<not> selection_shown x) \<and> foldl count_failure k rs < 10)))"

text \<open>
  What the detector observed: the card collections of its samples, in order. \<open>tracker\<close>
  and \<open>exits\<close> name the stability update and the exit test of the branch the criteria
  select; \<open>plain_checks\<close> and \<open>criteria_checks\<close> give the stability counter after a
  sequence of sampled cardinalities.
\<close>

fun job_samples :: "event list \<Rightarrow> card list list" where
  "job_samples [] = []"
| "job_samples (JobsSampled (Inr jobs) # es) = jobs # job_samples es"
| "job_samples (e # es) = job_samples es"

definition tracker :: "bool \<Rightarrow> stable_vars \<Rightarrow> nat \<Rightarrow> stable_vars" where
  "tracker criteria = (if criteria then track_criteria else track_plain)"

definition exits ::
  "bool \<Rightarrow> string option \<Rightarrow> string option \<Rightarrow> int \<Rightarrow> stable_vars \<Rightarrow> card list \<Rightarrow> bool" where
  "exits criteria expected_department expected_location max_stable_checks v jobs =
     (if criteria
      then any_job_matches expected_department expected_location jobs
             \<and> max_stable_checks \<le> int (stable_checks v)
      else max_stable_checks \<le> int (stable_checks v))"

definition initial_vars :: stable_vars where
  "initial_vars = \<lparr>stable_count = None, stable_checks = 0\<rparr>"

definition plain_checks :: "nat list \<Rightarrow> nat" where
  "plain_checks cs = stable_checks (foldl track_plain initial_vars cs)"

definition criteria_checks :: "nat list \<Rightarrow> nat" where
  "criteria_checks cs = stable_checks (foldl track_criteria initial_vars cs)"

definition stable_observed ::
  "bool \<Rightarrow> string option \<Rightarrow> string option \<Rightarrow> int \<Rightarrow> stable_vars \<Rightarrow> card list list
     \<Rightarrow> exn + bool \<Rightarrow> bool" where
  "stable_observed criteria ed el m v S r =
     ((\<forall>k<length S.
         exits criteria ed el m (foldl (tracker criteria) v (map length (take (Suc k) S))) (S ! k)
           \<longrightarrow> Suc k = length S \<and> r = Inr True) \<and>
      (r = Inr True \<longrightarrow>
         S \<noteq> [] \<and> exits criteria ed el m (foldl (tracker criteria) v (map length S)) (last S)))"

text \<open>
  What a wait observed: a poll is unsatisfied when it gave a falsy value or raised
  \<open>NoSuchElementException\<close>; \<open>polling c\<close> holds of the events of unsuccessful polling
  for the condition \<open>c\<close>.
\<close>

fun unsatisfied :: "exn + pyvalue \<Rightarrow> bool" where
  "unsatisfied (Inr v) = (\<not> truthy_value v)"
| "unsatisfied (Inl e) = (class_of e = NoSuchElementException)"

fun polling :: "condition \<Rightarrow> event \<Rightarrow> bool" where
  "polling c (Slept ms) = (ms = 500)"
| "polling c (Probed c' x) = (c' = c \<and> unsatisfied x)"
| "polling c e = False"

definition until_observed ::
  "condition \<Rightarrow> event list \<Rightarrow> exn + pyvalue \<Rightarrow> nat \<Rightarrow> nat \<Rightarrow> bool" where
  "until_observed c es r end_time t =
     ((\<exists>v es0. r = Inr v \<and> truthy_value v \<and> es = es0 @ [Probed c (Inr v)]
          \<and> (\<forall>e\<in>set es0. polling c e)) \<or>
      (\<exists>e es0. r = Inl e \<and> class_of e \<noteq> NoSuchElementException
          \<and> es = es0 @ [Probed c (Inl e)] \<and> (\<forall>e\<in>set es0. polling c e)) \<or>
      (r = Inl (Exn TimeoutException (Text [])) \<and> (\<forall>e\<in>set es. polling c e) \<and> es \<noteq> []
          \<and> end_time < t))"

text \<open>
  The DOM events that the scripts of a run dispatched on their first argument, in order
  (a script that raised dispatched none).
\<close>

fun stmt_events :: "pyvalue \<Rightarrow> js_stmt \<Rightarrow> (string \<times> pyvalue) list" where
  "stmt_events target (DispatchMouseEvent type) = [(type, target)]"
| "stmt_events target ElementClick = [(''click'', target)]"
| "stmt_events target ReturnOffsetTop = []"
| "stmt_events target SetScrollTop = []"

fun dispatched :: "event list \<Rightarrow> (string \<times> pyvalue) list" where
  "dispatched [] = []"
| "dispatched (ScriptRun js (target # args) (Inr x) # es) =
     concat (map (stmt_events target) js) @ dispatched es"
| "dispatched (e # es) = dispatched es"

fun gate_event :: "event \<Rightarrow> bool" where
  "gate_event (DepartmentRead x) = True"
| "gate_event (Slept ms) = True"
| "gate_event e = False"

fun is_script :: "event \<Rightarrow> bool" where
  "is_script (ScriptRun js args x) = True"
| "is_script e = False"

text \<open>
  A filter run activated its option and then saw the cards: the activation script ran on
  the option that the presence wait had found; afterwards the wait for the presence of
  all job cards and the wait for a clickable job card both succeeded with a truthy
  result; and the DOM events dispatched in the whole run are mousedown, mouseup, click on
  that option, in this order.
\<close>

definition option_activated :: "locator \<Rightarrow> event list \<Rightarrow> bool" where
  "option_activated option_locator es =
     (\<exists>opt pre x mid v1 mid2 v2 post.
        es = pre @ [ScriptRun activate_script [opt] (Inr x)] @ mid
               @ [Probed (presence_of_all_elements_located JOB_ITEMS) (Inr v1)] @ mid2
               @ [Probed (element_to_be_clickable JOB_ITEMS) (Inr v2)] @ post \<and>
        Probed (presence_of_element_located option_locator) (Inr opt) \<in> set pre \<and>
        truthy_value v1 \<and> truthy_value v2 \<and>
        dispatched es = [(''mousedown'', opt), (''mouseup'', opt), (''click'', opt)])"

text \<open>
  Whatever its result, an operation only appends to the log (\<open>appends\<close>); it dispatches
  no DOM event (\<open>quietly\<close>); it dispatches nothing or exactly mousedown, mouseup, click on
  one element (\<open>activating\<close>).
\<close>

definition activation :: "pyvalue \<Rightarrow> (string \<times> pyvalue) list" where
  "activation opt = [(''mousedown'', opt), (''mouseup'', opt), (''click'', opt)]"

definition quietly :: "(world \<Rightarrow> 'r \<times> world) \<Rightarrow> bool" where
  "quietly m =
     (\<forall>w r w'. m w = (r, w') \<longrightarrow> (\<exists>es. log w' = log w @ es \<and> dispatched es = []))"

definition activating :: "(world \<Rightarrow> 'r \<times> world) \<Rightarrow> bool" where
  "activating m =
     (\<forall>w r w'. m w = (r, w') \<longrightarrow>
        (\<exists>es. log w' = log w @ es \<and>
           (dispatched es = [] \<or> (\<exists>opt. dispatched es = activation opt))))"

definition appends :: "(world \<Rightarrow> 'r \<times> world) \<Rightarrow> bool" where
  "appends m = (\<forall>w r w'. m w = (r, w') \<longrightarrow> (\<exists>es. log w' = log w @ es))"

section \<open>Scenarios\<close>

text \<open>Concrete worlds, pages and operations on which the theorems below are exercised.\<close>

definition world0 :: world where
  "world0 = \<lparr>now = 0, log = []\<rparr>"

definition blank_page :: env where
  "blank_page =
     \<lparr>latency = (\<lambda>w. 0),
      department_control = (\<lambda>w. Inr ''All''),
      job_items = (\<lambda>w. Inr []),
      evaluate = (\<lambda>c w. Inl (Exn NoSuchElementException (Text []))),
      click_outcome = (\<lambda>v w. Inr ()),
      script_outcome = (\<lambda>s a w. Inr NoneValue)\<rparr>"

definition flaky_op :: "world \<Rightarrow> (exn + string) \<times> world" where
  "flaky_op w =
     (if now w < 1000 then Inl (Exn StaleElementReferenceException (Text ''stale card''))
      else Inr ''QA Engineer'', w)"

definition always_stale_op :: "world \<Rightarrow> (exn + string) \<times> world" where
  "always_stale_op w =
     (Inl (Exn StaleElementReferenceException
        (Text (if now w < 1000 then ''early'' else ''late''))), w)"

definition broken_op :: "world \<Rightarrow> (exn + string) \<times> world" where
  "broken_op w = (Inl (Exn NoSuchElementException (Text ''no title'')), w)"

definition page_selecting_after_two_seconds :: env where
  "page_selecting_after_two_seconds =
     blank_page\<lparr>department_control :=
       (\<lambda>w. Inr (if now w < 2000 then CHR 0xD7 # '' All'' else ''Quality Assurance''))\<rparr>"

definition page_without_control :: env where
  "page_without_control =
     blank_page\<lparr>department_control :=
       (\<lambda>w. Inl (Exn NoSuchElementException (Text ''select2-filter-by-department-container'')))\<rparr>"

definition page_recovering :: env where
  "page_recovering =
     blank_page\<lparr>latency := (\<lambda>w. 20),
       department_control :=
         (\<lambda>w. if now w < 9000
              then Inl (Exn NoSuchElementException (Text ''select2-filter-by-department-container''))
              else Inr ''Quality Assurance'')\<rparr>"

definition qa_card :: card where
  "qa_card = \<lparr>department_text = Inr ''Quality Assurance'',
               location_text = Inr ''Istanbul, Turkiye''\<rparr>"

definition sales_card :: card where
  "sales_card = \<lparr>department_text = Inr ''Sales'', location_text = Inr ''Istanbul, Turkiye''\<rparr>"

definition page_with_four_cards :: env where
  "page_with_four_cards =
     blank_page\<lparr>job_items := (\<lambda>w. Inr [qa_card, sales_card, qa_card, sales_card])\<rparr>"

definition page_rerendering :: env where
  "page_rerendering =
     blank_page\<lparr>job_items :=
       (\<lambda>w. Inr (if now w < 3000 then [sales_card, sales_card] else [qa_card, sales_card]))\<rparr>"

definition page_filling :: env where
  "page_filling =
     blank_page\<lparr>job_items := (\<lambda>w. Inr (if now w < 2000 then [] else [qa_card]))\<rparr>"

definition page_ready :: env where
  "page_ready =
     blank_page\<lparr>department_control := (\<lambda>w. Inr ''Quality Assurance''),
       job_items := (\<lambda>w. Inr [qa_card]),
       evaluate := (\<lambda>c w. Inr (case c of
            presence_of_element_located l \<Rightarrow> Element 2
          | presence_of_all_elements_located l \<Rightarrow> Elements [2]
          | visibility_of_element_located l \<Rightarrow> Element 3
          | visibility_of_any_elements_located l \<Rightarrow> Elements [2]
          | element_to_be_clickable l \<Rightarrow> Element 1)),
       script_outcome := (\<lambda>js args w. Inr (Number 0))\<rparr>"

definition page_ready_showing_all :: env where
  "page_ready_showing_all = page_ready\<lparr>department_control := (\<lambda>w. Inr ''All'')\<rparr>"

section \<open>Lemmas\<close>

lemma py_range_3: "py_range 3 = [0, 1, 2]"
  by (simp add: py_range_def upt_rec)

subsection \<open>World bookkeeping\<close>

lemma log_sleep [simp]: "log (sleep ms w) = log w @ [Slept ms]"
  by (simp add: sleep_def)

lemma now_sleep [simp]: "now (sleep ms w) = now w + ms"
  by (simp add: sleep_def)

lemma log_driver_call [simp]: "log (driver_call env ev w) = log w @ [ev]"
  by (simp add: driver_call_def)

lemma now_driver_call [simp]: "now (driver_call env ev w) = now w + latency env w"
  by (simp add: driver_call_def)

lemma since_append [simp]: "log w' = log w @ es \<Longrightarrow> since w w' = es"
  by (simp add: since_def)

lemma department_reads_append [simp]:
  "department_reads (xs @ ys) = department_reads xs @ department_reads ys"
  by (induction xs rule: department_reads.induct) auto

subsection \<open>The retry decorator\<close>

lemma retry_twice_stale_then_success:
  assumes "func w = (Inl e1, w1)" and "class_of e1 = StaleElementReferenceException"
    and "func (sleep 500 w1) = (Inl e2, w2)" and "class_of e2 = StaleElementReferenceException"
    and "func (sleep 500 w2) = (Inr v, w3)"
  shows "retry_on_stale_element 3 func w = (Inr (Some v), 3, w3)"
  using assms by (simp add: retry_on_stale_element_def py_range_3 numeral_3_eq_3)

lemma retry_always_stale:
  assumes a: "\<forall>u. \<exists>e u'. func u = (Inl e, u') \<and> class_of e = StaleElementReferenceException"
  shows "\<exists>e1 w1 e2 w2 e3 w3.
           func w = (Inl e1, w1) \<and> func (sleep 500 w1) = (Inl e2, w2) \<and>
           func (sleep 500 w2) = (Inl e3, w3) \<and>
           class_of e3 = StaleElementReferenceException \<and>
           retry_on_stale_element 3 func w = (Inl e3, 3, w3)"
proof -
  obtain e1 w1 where 1: "func w = (Inl e1, w1)" "class_of e1 = StaleElementReferenceException"
    using a by blast
  obtain e2 w2 where 2: "func (sleep 500 w1) = (Inl e2, w2)"
    "class_of e2 = StaleElementReferenceException"
    using a by blast
  obtain e3 w3 where 3: "func (sleep 500 w2) = (Inl e3, w3)"
    "class_of e3 = StaleElementReferenceException"
    using a by blast
  have "retry_on_stale_element 3 func w = (Inl e3, 3, w3)"
    using 1 2 3 by (simp add: retry_on_stale_element_def py_range_3 numeral_3_eq_3)
  then show ?thesis using 1 2 3 by blast
qed

text \<open>
  Claim C3. With \<open>max_attempts = 3\<close>: an operation that raises
  \<open>StaleElementReferenceException\<close> on its first two invocations and returns on the third
  makes the wrapper return that result, after three invocations; an operation that raises
  \<open>StaleElementReferenceException\<close> on every invocation is invoked exactly three times
  (with a sleep of 500 ms between them) and the wrapper raises the exception of the third
  invocation.
\<close>

theorem retry_on_stale_element_three_attempts:
  "(func w = (Inl e1, w1) \<and> class_of e1 = StaleElementReferenceException \<and>
    func (sleep 500 w1) = (Inl e2, w2) \<and> class_of e2 = StaleElementReferenceException \<and>
    func (sleep 500 w2) = (Inr v, w3)
      \<longrightarrow> retry_on_stale_element 3 func w = (Inr (Some v), 3, w3))
   \<and>
   ((\<forall>u. \<exists>e u'. func u = (Inl e, u') \<and> class_of e = StaleElementReferenceException)
      \<longrightarrow> (\<exists>e1 w1 e2 w2 e3 w3.
             func w = (Inl e1, w1) \<and> func (sleep 500 w1) = (Inl e2, w2) \<and>
             func (sleep 500 w2) = (Inl e3, w3) \<and>
             class_of e3 = StaleElementReferenceException \<and>
             retry_on_stale_element 3 func w = (Inl e3, 3, w3)))"
  using retry_twice_stale_then_success [of func w e1 w1 e2 w2 v w3]
    retry_always_stale [of func w]
  by blast

theorem retry_on_stale_element_three_attempts_witness:
  "retry_on_stale_element 3 flaky_op world0 =
     (Inr (Some ''QA Engineer''), 3, \<lparr>now = 1000, log = [Slept 500, Slept 500]\<rparr>)
   \<and> retry_on_stale_element 3 always_stale_op world0 =
     (Inl (Exn StaleElementReferenceException (Text ''late'')), 3,
      \<lparr>now = 1000, log = [Slept 500, Slept 500]\<rparr>)"
proof -
  have a: "retry_on_stale_element 3 flaky_op world0 =
      (Inr (Some ''QA Engineer''), 3, sleep 500 (sleep 500 world0))"
    using retry_on_stale_element_three_attempts
      [of flaky_op world0 "Exn StaleElementReferenceException (Text ''stale card'')" world0
          "Exn StaleElementReferenceException (Text ''stale card'')" "sleep 500 world0"
          "''QA Engineer''" "sleep 500 (sleep 500 world0)"]
    by (simp add: flaky_op_def world0_def)
  have s: "\<forall>u. \<exists>e u'. always_stale_op u = (Inl e, u') \<and> class_of e = StaleElementReferenceException"
    by (simp add: always_stale_op_def)
  have b: "retry_on_stale_element 3 always_stale_op world0 =
      (Inl (Exn StaleElementReferenceException (Text ''late'')), 3, sleep 500 (sleep 500 world0))"
    using retry_on_stale_element_three_attempts [of always_stale_op world0] s
    by (auto simp: always_stale_op_def world0_def)
  show ?thesis using a b by (simp add: sleep_def world0_def)
qed

text \<open>
  Claim C10. The wrapper catches only \<open>StaleElementReferenceException\<close>: when an
  invocation raises an exception of any other class, at whatever attempt, the wrapper
  raises that exception at once; the world is the one the operation left (no sleep), and
  the operation is not invoked again. In particular this holds for the first invocation.
\<close>

theorem retry_on_stale_element_other_exception:
  "(func w = (Inl e, w') \<and> class_of e \<noteq> StaleElementReferenceException
      \<longrightarrow> retry_attempts max_attempts func (attempt # rest) calls w = (Inl e, Suc calls, w'))
   \<and> (func w = (Inl e, w') \<and> class_of e \<noteq> StaleElementReferenceException \<and> 1 \<le> max_attempts
      \<longrightarrow> retry_on_stale_element max_attempts func w = (Inl e, 1, w'))"
proof -
  have "1 \<le> max_attempts \<Longrightarrow> py_range max_attempts = 0 # map int [1..<nat max_attempts]"
    by (simp add: py_range_def upt_rec)
  then show ?thesis
    by (auto simp: retry_on_stale_element_def)
qed

theorem retry_on_stale_element_other_exception_witness:
  "retry_on_stale_element 3 broken_op world0 =
     (Inl (Exn NoSuchElementException (Text ''no title'')), 1, world0)"
  using retry_on_stale_element_other_exception
    [of broken_op world0 "Exn NoSuchElementException (Text ''no title'')" world0 3 0 "[]" 0]
  by (simp add: broken_op_def)

subsection \<open>The gate\<close>

lemma log_read_department:
  "read_department env w = (r, w') \<Longrightarrow> log w' = log w @ [DepartmentRead r]"
  by (auto simp: read_department_def Let_def)

lemma now_read_department:
  "read_department env w = (r, w') \<Longrightarrow> now w' = now w + latency env w"
  by (auto simp: read_department_def Let_def)

lemma gate_body_Return:
  assumes "gate_body env s (v, w) = Return (r, w1)"
  shows "\<exists>x. log w1 = log w @ [DepartmentRead x] \<and> now w1 = now w + latency env w \<and>
           ((r = Inr True \<and> selection_shown x) \<or>
            (r = Inl (Exn Exception (CannotFindDepartmentFilter
                   (Suc (consecutive_element_failures v)) (now w1 - s)))
               \<and> isl x \<and> 10 \<le> Suc (consecutive_element_failures v)))"
  using assms
  by (auto simp: gate_body_def read_department_def Let_def max_element_failures_def
           split: sum.splits if_splits)

lemma gate_body_Continue:
  assumes "gate_body env s (v, w) = Continue (v', w')"
  shows "\<exists>x. log w' = log w @ [DepartmentRead x, Slept 1000] \<and> now w \<le> now w' \<and>
           \<not> selection_shown x \<and>
           consecutive_element_failures v' = count_failure (consecutive_element_failures v) x \<and>
           consecutive_element_failures v' < 10"
  using assms
  by (auto simp: gate_body_def read_department_def Let_def max_element_failures_def
                 count_failure_def
           split: sum.splits if_splits)

lemma gate_observed_cons:
  assumes "gate_observed s (count_failure k x) es r t" and "\<not> selection_shown x" and "k < 10"
  shows "gate_observed s k ([DepartmentRead x, Slept 1000] @ es) r t"
proof -
  define rs where "rs = department_reads es"
  have eq: "department_reads ([DepartmentRead x, Slept 1000] @ es) = x # rs"
    by (simp add: rs_def)
  note obs = assms(1) [unfolded gate_observed_def Let_def, folded rs_def]
  have 1: "\<forall>x\<in>set (butlast (x # rs)). \<not> selection_shown x"
    using obs assms(2) by auto
  have 2: "\<forall>n<length (x # rs). foldl count_failure k (take n (x # rs)) < 10"
  proof (intro allI impI)
    fix n assume n: "n < length (x # rs)"
    show "foldl count_failure k (take n (x # rs)) < 10"
    proof (cases n)
      case 0
      then show ?thesis using assms(3) by simp
    next
      case (Suc m)
      then have "m < length rs" using n by simp
      then show ?thesis using obs Suc by simp
    qed
  qed
  have ne: "rs \<noteq> [] \<Longrightarrow> es \<noteq> []" by (auto simp: rs_def)
  have 3: "(r = Inr True \<and> x # rs \<noteq> [] \<and> selection_shown (last (x # rs))
            \<and> last ([DepartmentRead x, Slept 1000] @ es) = DepartmentRead (last (x # rs))) \<or>
         (r = Inl (Exn Exception (CannotFindDepartmentFilter 10 (t - s))) \<and> x # rs \<noteq> []
            \<and> \<not> selection_shown (last (x # rs)) \<and> foldl count_failure k (x # rs) = 10
            \<and> last ([DepartmentRead x, Slept 1000] @ es) = DepartmentRead (last (x # rs))) \<or>
         ((\<exists>lastv. r = Inl (Exn Exception (DepartmentStillAll (t - s) lastv)))
            \<and> (\<forall>x\<in>set (x # rs). \<not> selection_shown x) \<and> foldl count_failure k (x # rs) < 10)"
    using obs assms(2) ne by auto
  show ?thesis
    unfolding gate_observed_def Let_def eq using 1 2 3 by blast
qed

lemma gate_loop_run:
  "gate_loop env s mw st = (r, w') \<Longrightarrow> consecutive_element_failures (fst st) < 10 \<Longrightarrow>
   \<exists>es. log w' = log (snd st) @ es \<and> now (snd st) \<le> now w' \<and>
        gate_observed s (consecutive_element_failures (fst st)) es r (now w')"
proof (induction env s mw st arbitrary: r w' rule: gate_loop.induct)
  case (1 env s mw st)
  obtain v w where st: "st = (v, w)" by (cases st)
  show ?case
  proof (cases "now w < mw")
    case False
    then have "r = Inl (Exn Exception (DepartmentStillAll (now w - s) (last_department_text v)))"
      "w' = w"
      using "1.prems"(1) st by (auto simp: gate_loop.simps)
    then show ?thesis using "1.prems"(2) st
      by (simp add: gate_observed_def)
  next
    case True
    show ?thesis
    proof (cases "gate_body env s st")
      case (Return res)
      then have res: "res = (r, w')" using True "1.prems"(1) st by (simp add: gate_loop.simps)
      from gate_body_Return [of env s v w r w'] Return res st
      obtain x where x: "log w' = log w @ [DepartmentRead x]" "now w' = now w + latency env w"
        "(r = Inr True \<and> selection_shown x) \<or>
            (r = Inl (Exn Exception (CannotFindDepartmentFilter
                  (Suc (consecutive_element_failures v)) (now w' - s)))
               \<and> isl x \<and> 10 \<le> Suc (consecutive_element_failures v))"
        by auto
      have "gate_observed s (consecutive_element_failures v) [DepartmentRead x] r (now w')"
        using x(3) "1.prems"(2) st
        by (auto simp: gate_observed_def count_failure_def isl_def)
      then show ?thesis using x st by auto
    next
      case (Continue st')
      obtain v1 w1 where st': "st' = (v1, w1)" by (cases st')
      from gate_body_Continue [of env s v w v1 w1] Continue st st'
      obtain x where x: "log w1 = log w @ [DepartmentRead x, Slept 1000]" "now w \<le> now w1"
        "\<not> selection_shown x"
        "consecutive_element_failures v1 = count_failure (consecutive_element_failures v) x"
        "consecutive_element_failures v1 < 10"
        by auto
      have run: "gate_loop env s mw st' = (r, w')"
        using True Continue "1.prems"(1) st by (simp add: gate_loop.simps)
      from "1.IH" [OF _ Continue run] True st x(5) st'
      obtain es where es: "log w' = log w1 @ es" "now w1 \<le> now w'"
        "gate_observed s (consecutive_element_failures v1) es r (now w')"
        by auto
      have "gate_observed s (consecutive_element_failures v)
              ([DepartmentRead x, Slept 1000] @ es) r (now w')"
        using gate_observed_cons [of s "consecutive_element_failures v" x es r "now w'"]
          es(3) x(3,4) "1.prems"(2) st by simp
      then show ?thesis using es x st by auto
    qed
  qed
qed

lemma foldl_count_failure: "foldl count_failure 0 rs = failure_run rs"
  by (induction rs rule: rev_induct) (auto simp: failure_run_def count_failure_def)

lemma gate_run:
  assumes "ensure_department_not_all env timeout w = (r, w')"
  shows "gate_observed (now w) 0 (since w w') r (now w') \<and> (\<exists>es. log w' = log w @ es)"
proof -
  from gate_loop_run [of env "now w" "now w + 1000 * timeout"
      "(\<lparr>last_department_text = None, consecutive_element_failures = 0\<rparr>, w)" r w'] assms
  obtain es where "log w' = log w @ es" "gate_observed (now w) 0 es r (now w')"
    by (auto simp: ensure_department_not_all_def)
  then show ?thesis by simp
qed

lemma selection_shown_in_last:
  assumes "\<forall>x\<in>set (butlast rs). \<not> selection_shown x" and "\<exists>x\<in>set rs. selection_shown x"
  shows "rs \<noteq> [] \<and> selection_shown (last rs)"
  using assms by (cases rs rule: rev_cases) auto

lemma gate_success_iff:
  assumes run: "ensure_department_not_all env timeout w = (r, w')"
  shows "(r = Inr True \<longleftrightarrow> (\<exists>x\<in>set (department_reads (since w w')). selection_shown x)) \<and>
      (\<forall>x\<in>set (butlast (department_reads (since w w'))). \<not> selection_shown x) \<and>
      (r = Inr True \<longrightarrow>
         last (since w w') = DepartmentRead (last (department_reads (since w w'))))"
proof -
  define rs where "rs = department_reads (since w w')"
  note obs = gate_run [OF run, THEN conjunct1, unfolded gate_observed_def Let_def, folded rs_def]
  have nb: "\<forall>x\<in>set (butlast rs). \<not> selection_shown x" using obs by blast
  have a: "r = Inr True \<Longrightarrow> \<exists>x\<in>set rs. selection_shown x" using obs by auto
  have b: "r = Inr True" if "\<exists>x\<in>set rs. selection_shown x"
  proof -
    have l: "rs \<noteq> [] \<and> selection_shown (last rs)" using selection_shown_in_last [OF nb that] .
    then show ?thesis using obs by auto
  qed
  have c: "r = Inr True \<Longrightarrow> last (since w w') = DepartmentRead (last rs)"
    using obs by auto
  show ?thesis using nb a b c unfolding rs_def by blast
qed

lemma gate_loop_Continue:
  "now (snd st) < mw \<Longrightarrow> gate_body env s st = Continue st' \<Longrightarrow>
   gate_loop env s mw st = gate_loop env s mw st'"
  by (subst gate_loop.simps) simp

lemma gate_loop_Return:
  "now (snd st) < mw \<Longrightarrow> gate_body env s st = Return r \<Longrightarrow> gate_loop env s mw st = r"
  by (subst gate_loop.simps) simp

lemma three_samples:
  assumes "department_control env w = Inr (CHR 0xD7 # '' All'')"
    and "department_control env (sleep 1000 (snd (read_department env w))) = Inr (CHR 0xD7 # '' All'')"
    and "department_control env
      (sleep 1000 (snd (read_department env (sleep 1000 (snd (read_department env w))))))
      = Inr ''Quality Assurance''"
    and "now (sleep 1000 (snd (read_department env (sleep 1000 (snd (read_department env w))))))
      < now w + 1000 * timeout"
  shows "ensure_department_not_all env timeout w =
        (Inr True,
         snd (read_department env
           (sleep 1000 (snd (read_department env (sleep 1000 (snd (read_department env w)))))))) \<and>
      department_reads (since w (snd (read_department env
           (sleep 1000 (snd (read_department env (sleep 1000 (snd (read_department env w)))))))))
        = [Inr (CHR 0xD7 # '' All''), Inr (CHR 0xD7 # '' All''), Inr ''Quality Assurance'']"
proof -
  define w1 where "w1 = snd (read_department env w)"
  define w2 where "w2 = snd (read_department env (sleep 1000 w1))"
  define w3 where "w3 = snd (read_department env (sleep 1000 w2))"
  define v1 where "v1 = \<lparr>last_department_text = Some (CHR 0xD7 # '' All''), consecutive_element_failures = 0\<rparr>"
  define mw where "mw = now w + 1000 * timeout"
  have s1: "strip (CHR 0xD7 # '' All'') = CHR 0xD7 # '' All''"
    by (simp add: strip_def isspace_def)
  have s2: "strip ''Quality Assurance'' = ''Quality Assurance''"
    by (simp add: strip_def isspace_def)
  have r1: "read_department env w = (Inr (CHR 0xD7 # '' All''), w1)"
    using assms(1) by (simp add: w1_def read_department_def Let_def)
  have r2: "read_department env (sleep 1000 w1) = (Inr (CHR 0xD7 # '' All''), w2)"
    using assms(2) by (simp add: w2_def w1_def read_department_def Let_def)
  have r3: "read_department env (sleep 1000 w2) = (Inr ''Quality Assurance'', w3)"
    using assms(3) by (simp add: w3_def w2_def w1_def read_department_def Let_def)
  have b1: "gate_body env (now w) (v, w) = Continue (v1, sleep 1000 w1)" for v
    using r1 s1 by (simp add: gate_body_def v1_def)
  have b2: "gate_body env (now w) (v1, sleep 1000 w1) = Continue (v1, sleep 1000 w2)"
    using r2 s1 by (simp add: gate_body_def v1_def)
  have b3: "gate_body env (now w) (v1, sleep 1000 w2) = Return (Inr True, w3)"
    using r3 s2 by (simp add: gate_body_def v1_def)
  have t3: "now (snd (v1, sleep 1000 w2)) < mw"
    using assms(4) by (simp add: w2_def w1_def mw_def)
  have t2: "now (snd (v1, sleep 1000 w1)) < mw"
    using t3 now_read_department [OF r2] by simp
  have t1: "now (snd (v, w)) < mw" for v
    using t2 now_read_department [OF r1] by simp
  have l1: "gate_loop env (now w) mw (v, w) = (Inr True, w3)" for v
    using gate_loop_Continue [OF t1 b1] gate_loop_Continue [OF t2 b2] gate_loop_Return [OF t3 b3]
    by simp
  have lg: "log w3 = log w @ [DepartmentRead (Inr (CHR 0xD7 # '' All'')), Slept 1000,
      DepartmentRead (Inr (CHR 0xD7 # '' All'')), Slept 1000, DepartmentRead (Inr ''Quality Assurance'')]"
    using log_read_department [OF r1] log_read_department [OF r2] log_read_department [OF r3]
    by simp
  show ?thesis
    using l1 lg unfolding ensure_department_not_all_def w3_def [symmetric] w2_def [symmetric] w1_def [symmetric] mw_def [symmetric]
    by simp
qed

lemmas gate_eval = ensure_department_not_all_def gate_loop.simps gate_body_def
  read_department_def driver_call_def sleep_def Let_def strip_def isspace_def
  max_element_failures_def blank_page_def world0_def

text \<open>
  Claim C2. A call of the gate returns \<open>True\<close> exactly when one of the department texts
  it observed is, stripped, non-empty and without the substring "All"; no read before the
  last one shows the selection, and on success the last thing the gate did is that read.
  When the control reads "\<times> All", "\<times> All", "Quality Assurance" at the gate's first three
  samples (one second apart, plus the driver's latency) and the timeout allows a third
  sample, the gate returns \<open>True\<close> at the third sample, having read exactly these three
  texts.
\<close>

theorem ensure_department_not_all_success:
  "(ensure_department_not_all env timeout w = (r, w') \<longrightarrow>
      (r = Inr True \<longleftrightarrow> (\<exists>x\<in>set (department_reads (since w w')). selection_shown x)) \<and>
      (\<forall>x\<in>set (butlast (department_reads (since w w'))). \<not> selection_shown x) \<and>
      (r = Inr True \<longrightarrow>
         last (since w w') = DepartmentRead (last (department_reads (since w w')))))
   \<and>
   (department_control env w = Inr (CHR 0xD7 # '' All'') \<and>
    department_control env (sleep 1000 (snd (read_department env w))) = Inr (CHR 0xD7 # '' All'') \<and>
    department_control env
      (sleep 1000 (snd (read_department env (sleep 1000 (snd (read_department env w))))))
      = Inr ''Quality Assurance'' \<and>
    now (sleep 1000 (snd (read_department env (sleep 1000 (snd (read_department env w))))))
      < now w + 1000 * timeout
    \<longrightarrow>
      ensure_department_not_all env timeout w =
        (Inr True,
         snd (read_department env
           (sleep 1000 (snd (read_department env (sleep 1000 (snd (read_department env w)))))))) \<and>
      department_reads (since w (snd (read_department env
           (sleep 1000 (snd (read_department env (sleep 1000 (snd (read_department env w)))))))))
        = [Inr (CHR 0xD7 # '' All''), Inr (CHR 0xD7 # '' All''), Inr ''Quality Assurance''])"
  using gate_success_iff [of env timeout w r w'] three_samples [of env w timeout]
  by blast

theorem ensure_department_not_all_success_witness:
  "ensure_department_not_all page_selecting_after_two_seconds 60 world0 =
     (Inr True,
      \<lparr>now = 2000,
       log = [DepartmentRead (Inr (CHR 0xD7 # '' All'')), Slept 1000,
              DepartmentRead (Inr (CHR 0xD7 # '' All'')), Slept 1000,
              DepartmentRead (Inr ''Quality Assurance'')]\<rparr>)
   \<and> (\<exists>x\<in>set (department_reads (since world0
          \<lparr>now = 2000,
           log = [DepartmentRead (Inr (CHR 0xD7 # '' All'')), Slept 1000,
              DepartmentRead (Inr (CHR 0xD7 # '' All'')), Slept 1000,
              DepartmentRead (Inr ''Quality Assurance'')]\<rparr>)). selection_shown x)
   \<and> \<not> selection_shown (Inr (CHR 0xD7 # '' All''))
   \<and> CHR 0xD7 # '' All'' \<noteq> ''All''"
proof -
  have run: "ensure_department_not_all page_selecting_after_two_seconds 60 world0 =
     (Inr True,
      \<lparr>now = 2000,
       log = [DepartmentRead (Inr (CHR 0xD7 # '' All'')), Slept 1000,
              DepartmentRead (Inr (CHR 0xD7 # '' All'')), Slept 1000,
              DepartmentRead (Inr ''Quality Assurance'')]\<rparr>)"
    using ensure_department_not_all_success
      [of page_selecting_after_two_seconds 60 world0 "Inr True" world0, THEN conjunct2]
    by (simp add: gate_eval page_selecting_after_two_seconds_def)
  show ?thesis
    using run ensure_department_not_all_success
      [of page_selecting_after_two_seconds 60 world0 "Inr True"
        "\<lparr>now = 2000,
       log = [DepartmentRead (Inr (CHR 0xD7 # '' All'')), Slept 1000,
              DepartmentRead (Inr (CHR 0xD7 # '' All'')), Slept 1000,
              DepartmentRead (Inr ''Quality Assurance'')]\<rparr>", THEN conjunct1]
    by (simp add: strip_def isspace_def since_def world0_def)
qed

lemma failure_run_le:
  assumes "\<forall>n<length rs. failure_run (take n rs) < 10"
  shows "failure_run rs \<le> 10"
proof (cases rs rule: rev_cases)
  case Nil
  then show ?thesis by (simp add: failure_run_def)
next
  case (snoc ys y)
  then have "failure_run ys < 10" using assms by (auto dest: spec [of _ "length ys"])
  then show ?thesis using snoc by (auto simp: failure_run_def)
qed

lemma gate_tolerance:
  assumes run: "ensure_department_not_all env timeout w = (r, w')"
  shows "(\<forall>n<length (department_reads (since w w')).
            failure_run (take n (department_reads (since w w'))) < 10) \<and>
         ((\<exists>n el. r = Inl (Exn Exception (CannotFindDepartmentFilter n el)))
            \<longleftrightarrow> failure_run (department_reads (since w w')) = 10) \<and>
         (\<forall>n el. r = Inl (Exn Exception (CannotFindDepartmentFilter n el)) \<longrightarrow>
            n = 10 \<and> el = now w' - now w \<and>
            last (since w w') = DepartmentRead (last (department_reads (since w w'))))"
proof -
  define rs where "rs = department_reads (since w w')"
  note obs = gate_run [OF run, THEN conjunct1, unfolded gate_observed_def Let_def foldl_count_failure, folded rs_def]
  have a: "\<forall>n<length rs. failure_run (take n rs) < 10" using obs by blast
  have b: "failure_run rs = 10" if "r = Inl (Exn Exception (CannotFindDepartmentFilter n el))" for n el
    using obs that by auto
  have c: "\<exists>n el. r = Inl (Exn Exception (CannotFindDepartmentFilter n el))" if "failure_run rs = 10"
  proof (cases rs rule: rev_cases)
    case Nil
    then show ?thesis using that by (simp add: failure_run_def)
  next
    case (snoc ys y)
    then show ?thesis using obs that
      by (cases y) (auto simp: failure_run_def)
  qed
  have d: "n = 10 \<and> el = now w' - now w \<and> last (since w w') = DepartmentRead (last rs)"
    if "r = Inl (Exn Exception (CannotFindDepartmentFilter n el))" for n el
    using obs that by auto
  show ?thesis using a b c d unfolding rs_def by blast
qed


text \<open>
  Claim C4. The gate aborts with "Cannot find department filter" exactly when its reads
  end in 10 consecutive failures; before its last read the run of consecutive failures
  (which a successful read resets to zero) was always below 10, so up to 9 consecutive
  failures are tolerated. The abort comes immediately after the tenth failed read, and its
  message carries the attempt count 10 and the time elapsed since the gate started.
\<close>

theorem ensure_department_not_all_failure_bound:
  "ensure_department_not_all env timeout w = (r, w') \<longrightarrow>
     (\<forall>n<length (department_reads (since w w')).
        failure_run (take n (department_reads (since w w'))) < 10) \<and>
     ((\<exists>n el. r = Inl (Exn Exception (CannotFindDepartmentFilter n el)))
        \<longleftrightarrow> failure_run (department_reads (since w w')) = 10) \<and>
     (\<forall>n el. r = Inl (Exn Exception (CannotFindDepartmentFilter n el)) \<longrightarrow>
        n = 10 \<and> el = now w' - now w \<and>
        last (since w w') = DepartmentRead (last (department_reads (since w w'))))"
  using gate_tolerance [of env timeout w r w'] by blast

lemma page_without_control_run:
  "\<exists>w'. ensure_department_not_all page_without_control 60 world0 =
      (Inl (Exn Exception (CannotFindDepartmentFilter 10 9000)), w')
    \<and> length (department_reads (since world0 w')) = 10"
  by (simp add: gate_eval page_without_control_def since_def)

lemma page_recovering_run:
  "\<exists>w'. ensure_department_not_all page_recovering 60 world0 = (Inr True, w')
    \<and> length (department_reads (since world0 w')) = 10 \<and> now w' = 9200"
  by (simp add: gate_eval page_recovering_def since_def)

theorem ensure_department_not_all_failure_bound_witness:
  "(\<exists>w'. ensure_department_not_all page_without_control 60 world0 =
        (Inl (Exn Exception (CannotFindDepartmentFilter 10 9000)), w')
      \<and> length (department_reads (since world0 w')) = 10
      \<and> failure_run (department_reads (since world0 w')) = 10)
   \<and> (\<exists>w'. ensure_department_not_all page_recovering 60 world0 = (Inr True, w')
      \<and> length (department_reads (since world0 w')) = 10
      \<and> failure_run (take 9 (department_reads (since world0 w'))) = 9)"
proof -
  obtain w1 where w1: "ensure_department_not_all page_without_control 60 world0 =
        (Inl (Exn Exception (CannotFindDepartmentFilter 10 9000)), w1)"
      "length (department_reads (since world0 w1)) = 10"
    using page_without_control_run by blast
  have a: "failure_run (department_reads (since world0 w1)) = 10"
    using ensure_department_not_all_failure_bound
      [of page_without_control 60 world0 "Inl (Exn Exception (CannotFindDepartmentFilter 10 9000))" w1]
      w1(1) by blast
  have b: "\<exists>w'. ensure_department_not_all page_recovering 60 world0 = (Inr True, w')
      \<and> length (department_reads (since world0 w')) = 10
      \<and> failure_run (take 9 (department_reads (since world0 w'))) = 9"
    by (simp add: gate_eval page_recovering_def since_def failure_run_def)
  show ?thesis using w1 a b by blast
qed

subsection \<open>The detector\<close>

lemma job_samples_append [simp]:
  "job_samples (xs @ ys) = job_samples xs @ job_samples ys"
  by (induction xs rule: job_samples.induct) auto

lemma stable_body_Return:
  assumes "stable_body env ed el m (v, w) = Return (r, w1)"
  shows "\<exists>x. log w1 = log w @ [JobsSampled x] \<and>
           ((\<exists>e. x = Inl e \<and> r = Inl e) \<or>
            (\<exists>jobs. x = Inr jobs \<and> r = Inr True \<and>
               exits (truthy ed \<or> truthy el) ed el m
                 (tracker (truthy ed \<or> truthy el) v (length jobs)) jobs))"
  using assms
  by (auto simp: stable_body_def sample_jobs_def Let_def exits_def tracker_def
           split: sum.splits if_splits)

lemma stable_body_Continue:
  assumes "stable_body env ed el m (v, w) = Continue (v', w')"
  shows "\<exists>jobs. log w' = log w @ [JobsSampled (Inr jobs), Slept 1000] \<and>
           v' = tracker (truthy ed \<or> truthy el) v (length jobs) \<and>
           \<not> exits (truthy ed \<or> truthy el) ed el m v' jobs"
  using assms
  by (auto simp: stable_body_def sample_jobs_def Let_def exits_def tracker_def
           split: sum.splits if_splits)

lemma stable_observed_cons:
  assumes "stable_observed c ed el m (tracker c v (length jobs)) S r"
    and "\<not> exits c ed el m (tracker c v (length jobs)) jobs"
  shows "stable_observed c ed el m v (jobs # S) r"
proof -
  note obs = assms(1) [unfolded stable_observed_def]
  have 1: "exits c ed el m (foldl (tracker c) v (map length (take (Suc k) (jobs # S)))) ((jobs # S) ! k)
           \<longrightarrow> Suc k = length (jobs # S) \<and> r = Inr True" if "k < length (jobs # S)" for k
  proof (cases k)
    case 0
    then show ?thesis using assms(2) by simp
  next
    case (Suc j)
    then have "j < length S" using that by simp
    then show ?thesis using obs Suc by simp
  qed
  have 2: "r = Inr True \<longrightarrow> jobs # S \<noteq> [] \<and>
      exits c ed el m (foldl (tracker c) v (map length (jobs # S))) (last (jobs # S))"
    using obs by auto
  show ?thesis unfolding stable_observed_def using 1 2 by blast
qed

lemma stable_loop_run:
  "stable_loop env ed el m T st = (r, w') \<Longrightarrow>
   \<exists>es. log w' = log (snd st) @ es \<and>
        stable_observed (truthy ed \<or> truthy el) ed el m (fst st) (job_samples es) r"
proof (induction env ed el m T st arbitrary: r w' rule: stable_loop.induct)
  case (1 env ed el m T st)
  obtain v w where st: "st = (v, w)" by (cases st)
  show ?case
  proof (cases "now w < T")
    case False
    then have "r = Inr False" "w' = w"
      using "1.prems"(1) st by (auto simp: stable_loop.simps)
    then show ?thesis using st by (simp add: stable_observed_def)
  next
    case True
    show ?thesis
    proof (cases "stable_body env ed el m st")
      case (Return res)
      then have res: "res = (r, w')" using True "1.prems"(1) st by (simp add: stable_loop.simps)
      from stable_body_Return [of env ed el m v w r w'] Return res st
      obtain x where x: "log w' = log w @ [JobsSampled x]"
        "(\<exists>e. x = Inl e \<and> r = Inl e) \<or>
            (\<exists>jobs. x = Inr jobs \<and> r = Inr True \<and>
               exits (truthy ed \<or> truthy el) ed el m
                 (tracker (truthy ed \<or> truthy el) v (length jobs)) jobs)"
        by auto
      have "stable_observed (truthy ed \<or> truthy el) ed el m v (job_samples [JobsSampled x]) r"
        using x(2) by (auto simp: stable_observed_def)
      then show ?thesis using x st by auto
    next
      case (Continue st')
      obtain v1 w1 where st': "st' = (v1, w1)" by (cases st')
      from stable_body_Continue [of env ed el m v w v1 w1] Continue st st'
      obtain jobs where x: "log w1 = log w @ [JobsSampled (Inr jobs), Slept 1000]"
        "v1 = tracker (truthy ed \<or> truthy el) v (length jobs)"
        "\<not> exits (truthy ed \<or> truthy el) ed el m v1 jobs"
        by auto
      have run: "stable_loop env ed el m T st' = (r, w')"
        using True Continue "1.prems"(1) st by (simp add: stable_loop.simps)
      from "1.IH" [OF _ Continue run] True st st'
      obtain es where es: "log w' = log w1 @ es"
        "stable_observed (truthy ed \<or> truthy el) ed el m v1 (job_samples es) r"
        by auto
      have "stable_observed (truthy ed \<or> truthy el) ed el m v
              (job_samples ([JobsSampled (Inr jobs), Slept 1000] @ es)) r"
        using stable_observed_cons [of "truthy ed \<or> truthy el" ed el m v jobs "job_samples es" r]
          es(2) x(2,3) by simp
      then show ?thesis using es x st by auto
    qed
  qed
qed

lemma stable_run:
  assumes "wait_for_jobs_stable env ed el m w = (r, w')"
  shows "stable_observed (truthy ed \<or> truthy el) ed el m initial_vars
           (job_samples (since w w')) r \<and> (\<exists>es. log w' = log w @ es)"
proof -
  from stable_loop_run [of env ed el m "now w + 1000 * WAIT_TIME"
      "(\<lparr>stable_count = None, stable_checks = 0\<rparr>, w)" r w'] assms
  obtain es where "log w' = log w @ es"
    "stable_observed (truthy ed \<or> truthy el) ed el m initial_vars (job_samples es) r"
    by (auto simp: wait_for_jobs_stable_def initial_vars_def)
  then show ?thesis by (simp add: since_def)
qed

lemma tracked_plain:
  assumes "cs \<noteq> []"
  shows "stable_count (foldl track_plain initial_vars cs) = Some (last cs) \<and>
         1 \<le> plain_checks cs \<and> plain_checks cs \<le> length cs \<and>
         (\<forall>i<plain_checks cs. cs ! (length cs - 1 - i) = last cs) \<and>
         (2 \<le> plain_checks cs \<longrightarrow> 0 < last cs)"
  using assms
proof (induction cs rule: rev_induct)
  case Nil
  then show ?case by simp
next
  case (snoc y ys)
  show ?case
  proof (cases "ys = []")
    case True
    then show ?thesis by (simp add: plain_checks_def initial_vars_def track_plain_def)
  next
    case False
    note ih = snoc.IH [OF False]
    define v where "v = foldl track_plain initial_vars ys"
    have sc: "stable_count v = Some (last ys)" using ih by (simp add: v_def)
    have ck: "stable_checks v = plain_checks ys" by (simp add: v_def plain_checks_def)
    show ?thesis
    proof (cases "y = last ys \<and> 0 < y")
      case True
      have pc: "plain_checks (ys @ [y]) = Suc (plain_checks ys)"
        using True sc ck by (simp add: plain_checks_def v_def [symmetric] track_plain_def)
      have st: "stable_count (foldl track_plain initial_vars (ys @ [y])) = Some y"
        using True sc by (simp add: v_def [symmetric] track_plain_def)
      have idx: "(ys @ [y]) ! (length (ys @ [y]) - 1 - i) = y" if "i < Suc (plain_checks ys)" for i
      proof (cases i)
        case 0
        then show ?thesis by simp
      next
        case (Suc j)
        then have j: "j < plain_checks ys" using that by simp
        then have "ys ! (length ys - 1 - j) = last ys" using ih by blast
        moreover have "length ys - Suc j < length ys" using False by simp
        ultimately show ?thesis using Suc True by (simp add: nth_append)
      qed
      show ?thesis using pc st idx ih True by auto
    next
      case False
      have pc: "plain_checks (ys @ [y]) = 1"
        using False sc ck by (auto simp: plain_checks_def v_def [symmetric] track_plain_def)
      have st: "stable_count (foldl track_plain initial_vars (ys @ [y])) = Some y"
        using False sc by (auto simp: v_def [symmetric] track_plain_def)
      show ?thesis using pc st by simp
    qed
  qed
qed


lemma tracked_criteria:
  assumes "cs \<noteq> []"
  shows "stable_count (foldl track_criteria initial_vars cs) = Some (last cs)"
  using assms
  by (induction cs rule: rev_induct)
     (auto simp: track_criteria_def initial_vars_def split: option.splits)

lemma criteria_checks_same:
  assumes "cs \<noteq> []" and "c = last cs"
  shows "criteria_checks (cs @ [c]) = criteria_checks cs + 1"
  using tracked_criteria [OF assms(1)] assms(2)
  by (simp add: criteria_checks_def track_criteria_def)

lemma criteria_checks_empty: "criteria_checks (replicate n 0) = n"
proof (induction n)
  case 0
  then show ?case by (simp add: criteria_checks_def initial_vars_def)
next
  case (Suc n)
  show ?case
  proof (cases n)
    case 0
    then show ?thesis by (simp add: criteria_checks_def initial_vars_def track_criteria_def)
  next
    case (Suc k)
    then have "replicate n (0::nat) \<noteq> []" "last (replicate n (0::nat)) = 0" by simp_all
    then have "criteria_checks (replicate n 0 @ [0]) = criteria_checks (replicate n 0) + 1"
      using criteria_checks_same by metis
    then show ?thesis using Suc.IH by (simp add: replicate_append_same)
  qed
qed

lemma plain_checks_empty: "plain_checks (replicate (Suc n) 0) = 1"
proof -
  have "replicate (Suc n) (0::nat) \<noteq> []" by simp
  from tracked_plain [OF this] show ?thesis by (auto simp del: replicate_Suc)
qed

lemma str_contains_iff: "str_contains s sub \<longleftrightarrow> (\<exists>ps ss. s = ps @ sub @ ss)"
proof (induction s)
  case Nil
  then show ?case by auto
next
  case (Cons c cs)
  have a: "take (length sub) (c # cs) = sub \<longleftrightarrow> (\<exists>ss. c # cs = sub @ ss)"
    by (metis append_eq_conv_conj append_take_drop_id)
  have b: "(\<exists>ps ss. c # cs = ps @ sub @ ss) \<longleftrightarrow>
           (\<exists>ss. c # cs = sub @ ss) \<or> (\<exists>ps ss. cs = ps @ sub @ ss)"
  proof
    assume "\<exists>ps ss. c # cs = ps @ sub @ ss"
    then obtain ps ss where e: "c # cs = ps @ sub @ ss" by blast
    show "(\<exists>ss. c # cs = sub @ ss) \<or> (\<exists>ps ss. cs = ps @ sub @ ss)"
    proof (cases ps)
      case Nil
      then show ?thesis using e by auto
    next
      case (Cons p ps')
      then show ?thesis using e by auto
    qed
  next
    assume "(\<exists>ss. c # cs = sub @ ss) \<or> (\<exists>ps ss. cs = ps @ sub @ ss)"
    then show "\<exists>ps ss. c # cs = ps @ sub @ ss"
    proof
      assume "\<exists>ss. c # cs = sub @ ss"
      then show ?thesis by (metis append_Nil)
    next
      assume "\<exists>ps ss. cs = ps @ sub @ ss"
      then show ?thesis by (metis append_Cons)
    qed
  qed
  show ?case using a b Cons.IH by simp
qed

lemma job_matches_iff:
  "job_matches ed el job = Inr True \<longleftrightarrow>
     (truthy ed \<longrightarrow> (\<exists>t. department_text job = Inr t \<and> str_contains t (the ed))) \<and>
     (truthy el \<longrightarrow> location_text job = Inr (the el))"
  by (cases ed; cases el; cases "department_text job"; cases "location_text job")
     (auto simp: job_matches_def Let_def)

lemma any_job_matches_iff:
  "any_job_matches ed el jobs \<longleftrightarrow> (\<exists>job\<in>set jobs. job_matches ed el job = Inr True)"
  by (induction jobs) (auto split: sum.splits bool.splits)

lemma stable_loop_last:
  "stable_loop env ed el m T st = (Inr True, w') \<Longrightarrow>
   \<exists>es jobs. log w' = log (snd st) @ es @ [JobsSampled (Inr jobs)]"
proof (induction env ed el m T st arbitrary: w' rule: stable_loop.induct)
  case (1 env ed el m T st)
  obtain v w where st: "st = (v, w)" by (cases st)
  have t: "now w < T" using "1.prems" st by (auto simp: stable_loop.simps split: if_splits)
  show ?case
  proof (cases "stable_body env ed el m st")
    case (Return res)
    then have res: "res = (Inr True, w')" using t "1.prems"(1) st by (simp add: stable_loop.simps)
    from stable_body_Return [of env ed el m v w "Inr True" w'] Return res st
    show ?thesis using st by auto
  next
    case (Continue st')
    obtain v1 w1 where st': "st' = (v1, w1)" by (cases st')
    from stable_body_Continue [of env ed el m v w v1 w1] Continue st st'
    obtain jobs where x: "log w1 = log w @ [JobsSampled (Inr jobs), Slept 1000]"
      by auto
    have run: "stable_loop env ed el m T st' = (Inr True, w')"
      using t Continue "1.prems"(1) st by (simp add: stable_loop.simps)
    from "1.IH" [OF _ Continue run] t st st'
    obtain es jobs' where "log w' = log w1 @ es @ [JobsSampled (Inr jobs')]"
      by auto
    then have "log w' = log w @ ([JobsSampled (Inr jobs), Slept 1000] @ es) @ [JobsSampled (Inr jobs')]"
      using x by simp
    then show ?thesis using st by (metis snd_conv)
  qed
qed

lemma stable_plain_success:
  assumes run: "wait_for_jobs_stable env ed el m w = (Inr True, w')"
    and plain: "\<not> truthy ed" "\<not> truthy el" and m: "2 \<le> m"
  shows "m \<le> int (length (map length (job_samples (since w w')))) \<and>
         0 < last (map length (job_samples (since w w'))) \<and>
         (\<forall>i<nat m. map length (job_samples (since w w')) !
                       (length (map length (job_samples (since w w'))) - 1 - i)
                     = last (map length (job_samples (since w w'))))"
proof -
  define cs where "cs = map length (job_samples (since w w'))"
  from stable_run [OF run] plain
  have ne: "cs \<noteq> []" and ex: "m \<le> int (plain_checks cs)"
    by (auto simp: stable_observed_def exits_def tracker_def plain_checks_def cs_def)
  note t = tracked_plain [OF ne]
  have 1: "m \<le> int (length cs)" using t ex by linarith
  have 2: "0 < last cs" using t ex m by auto
  have 3: "\<forall>i<nat m. cs ! (length cs - 1 - i) = last cs"
    using t ex by auto
  show ?thesis using 1 2 3 unfolding cs_def by blast
qed

lemmas stable_eval = wait_for_jobs_stable_def stable_loop.simps stable_body_def
  sample_jobs_def driver_call_def sleep_def Let_def WAIT_TIME_def blank_page_def world0_def
  track_plain_def track_criteria_def job_matches_def qa_card_def sales_card_def


lemma stable_last_sample:
  assumes run: "wait_for_jobs_stable env ed el m w = (Inr True, w')"
  shows "\<exists>jobs. since w w' \<noteq> [] \<and> last (since w w') = JobsSampled (Inr jobs) \<and>
           last (job_samples (since w w')) = jobs \<and> job_samples (since w w') \<noteq> []"
proof -
  from stable_loop_last [of env ed el m "now w + 1000 * WAIT_TIME"
      "(\<lparr>stable_count = None, stable_checks = 0\<rparr>, w)" w'] run
  obtain es jobs where "log w' = log w @ es @ [JobsSampled (Inr jobs)]"
    by (auto simp: wait_for_jobs_stable_def)
  then have "since w w' = es @ [JobsSampled (Inr jobs)]" by simp
  then show ?thesis by simp
qed

text \<open>
  Claim C1, as stated, fails for a threshold below 2: the first sample always sets the
  counter to 1, whatever its cardinality, so with \<open>max_stable_checks = 1\<close> the detector
  reports success on its first sample, here over an empty page.
\<close>

theorem wait_for_jobs_stable_threshold_one_counterexample:
  "wait_for_jobs_stable blank_page None None 1 world0 =
     (Inr True, \<lparr>now = 0, log = [JobsSampled (Inr [])]\<rparr>)
   \<and> map length (job_samples (since world0 \<lparr>now = 0, log = [JobsSampled (Inr [])]\<rparr>)) = [0]"
  by (simp add: stable_eval since_def)

text \<open>
  Claim C1, amended. Without criteria and with a threshold of at least 2, the detector
  reports success only when the last \<open>max_stable_checks\<close> samples all have the same
  cardinality, which is greater than zero; hence a source whose cardinality changes at
  every sample never yields success, and with threshold 3 success comes no earlier than
  the third sample.
\<close>

theorem wait_for_jobs_stable_plain_success:
  "wait_for_jobs_stable env ed el m w = (r, w') \<and> \<not> truthy ed \<and> \<not> truthy el \<and> 2 \<le> m \<longrightarrow>
     (let cs = map length (job_samples (since w w')) in
        (r = Inr True \<longrightarrow>
           m \<le> int (length cs) \<and> 0 < last cs \<and>
           (\<forall>i<nat m. cs ! (length cs - 1 - i) = last cs)) \<and>
        ((\<forall>i. Suc i < length cs \<longrightarrow> cs ! i \<noteq> cs ! Suc i) \<longrightarrow> r \<noteq> Inr True) \<and>
        (m = 3 \<and> r = Inr True \<longrightarrow> 3 \<le> length cs))"
proof (intro impI, elim conjE)
  assume run: "wait_for_jobs_stable env ed el m w = (r, w')"
    and plain: "\<not> truthy ed" "\<not> truthy el" and m: "2 \<le> m"
  define cs where "cs = map length (job_samples (since w w'))"
  have main: "m \<le> int (length cs) \<and> 0 < last cs \<and>
           (\<forall>i<nat m. cs ! (length cs - 1 - i) = last cs)" if "r = Inr True"
    using stable_plain_success [OF _ plain m, of env w w'] run that unfolding cs_def by blast
  have chg: "r \<noteq> Inr True" if c: "\<forall>i. Suc i < length cs \<longrightarrow> cs ! i \<noteq> cs ! Suc i"
  proof
    assume "r = Inr True"
    note f = main [OF this]
    have len: "2 \<le> length cs" using f m by linarith
    have "cs ! (length cs - 1 - 0) = last cs" "cs ! (length cs - 1 - 1) = last cs"
      using f m by auto
    then have "cs ! (length cs - 2) = cs ! Suc (length cs - 2)"
      using len by (simp add: Suc_diff_Suc numeral_2_eq_2)
    moreover have "Suc (length cs - 2) < length cs" using len by simp
    ultimately show False using c by blast
  qed
  have three: "3 \<le> length cs" if "m = 3 \<and> r = Inr True"
    using main that by auto
  show "let cs = map length (job_samples (since w w')) in
        (r = Inr True \<longrightarrow>
           m \<le> int (length cs) \<and> 0 < last cs \<and>
           (\<forall>i<nat m. cs ! (length cs - 1 - i) = last cs)) \<and>
        ((\<forall>i. Suc i < length cs \<longrightarrow> cs ! i \<noteq> cs ! Suc i) \<longrightarrow> r \<noteq> Inr True) \<and>
        (m = 3 \<and> r = Inr True \<longrightarrow> 3 \<le> length cs)"
    unfolding Let_def cs_def [symmetric] using main chg three by blast
qed

lemma page_with_four_cards_run:
  "\<exists>w'. wait_for_jobs_stable page_with_four_cards None None 3 world0 = (Inr True, w') \<and>
     map length (job_samples (since world0 w')) = [4, 4, 4]"
  by (simp add: stable_eval page_with_four_cards_def since_def)

theorem wait_for_jobs_stable_plain_success_witness:
  "\<exists>w'. wait_for_jobs_stable page_with_four_cards None None 3 world0 = (Inr True, w') \<and>
     map length (job_samples (since world0 w')) = [4, 4, 4] \<and>
     3 \<le> length (map length (job_samples (since world0 w')))"
proof -
  obtain w' where w': "wait_for_jobs_stable page_with_four_cards None None 3 world0 = (Inr True, w')"
    "map length (job_samples (since world0 w')) = [4, 4, 4]"
    using page_with_four_cards_run by auto
  have "3 \<le> length (map length (job_samples (since world0 w')))"
    using wait_for_jobs_stable_plain_success
      [of page_with_four_cards None None 3 world0 "Inr True" w'] w'(1)
    by (simp add: Let_def)
  then show ?thesis using w' by (intro exI [of _ w']) simp
qed

text \<open>
  Claim C5. With a department or location criterion: a sample whose card count equals the
  previous sample's count increments the stability counter, which depends on the counts
  only, not on any match; the detector returns \<open>True\<close> exactly when at one of its samples
  some card matches and the counter, after that sample, has reached the threshold; a card
  matches when its department text contains the expected department (if one is given) and
  its location text equals the expected location (if one is given).
\<close>

theorem wait_for_jobs_stable_criteria_success:
  "(cs \<noteq> [] \<and> c = last cs \<longrightarrow> criteria_checks (cs @ [c]) = criteria_checks cs + 1) \<and>
   (wait_for_jobs_stable env ed el m w = (r, w') \<and> (truthy ed \<or> truthy el) \<longrightarrow>
      (r = Inr True \<longleftrightarrow>
         (\<exists>k<length (job_samples (since w w')).
            any_job_matches ed el (job_samples (since w w') ! k) \<and>
            m \<le> int (criteria_checks (map length (take (Suc k) (job_samples (since w w')))))))) \<and>
   (any_job_matches ed el jobs \<longleftrightarrow>
      (\<exists>job\<in>set jobs.
         (truthy ed \<longrightarrow> (\<exists>t ps ss. department_text job = Inr t \<and> t = ps @ the ed @ ss)) \<and>
         (truthy el \<longrightarrow> location_text job = Inr (the el))))"
proof (intro conjI impI)
  assume "cs \<noteq> [] \<and> c = last cs"
  then show "criteria_checks (cs @ [c]) = criteria_checks cs + 1"
    using criteria_checks_same by blast
next
  assume a: "wait_for_jobs_stable env ed el m w = (r, w') \<and> (truthy ed \<or> truthy el)"
  define S where "S = job_samples (since w w')"
  from a stable_run [of env ed el m w r w']
  have obs: "stable_observed True ed el m initial_vars S r"
    by (auto simp: S_def)
  have ex: "exits True ed el m (foldl (tracker True) initial_vars (map length (take (Suc k) S))) (S ! k)
      \<longleftrightarrow> any_job_matches ed el (S ! k) \<and> m \<le> int (criteria_checks (map length (take (Suc k) S)))"
    for k
    by (simp add: exits_def tracker_def criteria_checks_def)
  have l: "r = Inr True \<Longrightarrow> \<exists>k<length S. any_job_matches ed el (S ! k) \<and>
            m \<le> int (criteria_checks (map length (take (Suc k) S)))"
  proof -
    assume r: "r = Inr True"
    then have ne: "S \<noteq> []" and e: "exits True ed el m (foldl (tracker True) initial_vars (map length S)) (last S)"
      using obs by (auto simp: stable_observed_def)
    have "take (Suc (length S - 1)) S = S" using ne by simp
    then have "exits True ed el m (foldl (tracker True) initial_vars
        (map length (take (Suc (length S - 1)) S))) (S ! (length S - 1))"
      using e ne by (simp add: last_conv_nth)
    moreover have "length S - 1 < length S" using ne by simp
    ultimately show ?thesis using ex by blast
  qed
  have rr: "r = Inr True" if "\<exists>k<length S. any_job_matches ed el (S ! k) \<and>
            m \<le> int (criteria_checks (map length (take (Suc k) S)))"
    using that obs ex unfolding stable_observed_def by blast
  show "(r = Inr True) = (\<exists>k<length (job_samples (since w w')).
            any_job_matches ed el (job_samples (since w w') ! k) \<and>
            m \<le> int (criteria_checks (map length (take (Suc k) (job_samples (since w w'))))))"
    using l rr unfolding S_def by blast
next
  show "any_job_matches ed el jobs \<longleftrightarrow>
      (\<exists>job\<in>set jobs.
         (truthy ed \<longrightarrow> (\<exists>t ps ss. department_text job = Inr t \<and> t = ps @ the ed @ ss)) \<and>
         (truthy el \<longrightarrow> location_text job = Inr (the el)))"
    unfolding any_job_matches_iff job_matches_iff str_contains_iff by blast
qed

lemma page_rerendering_run:
  "\<exists>w'. wait_for_jobs_stable page_rerendering (Some ''Quality Assurance'')
          (Some ''Istanbul, Turkiye'') 3 world0 = (Inr True, w') \<and>
     job_samples (since world0 w') =
       [[sales_card, sales_card], [sales_card, sales_card], [sales_card, sales_card],
        [qa_card, sales_card]]"
  by (simp add: stable_eval page_rerendering_def since_def)

theorem wait_for_jobs_stable_criteria_success_witness:
  "\<exists>w'. wait_for_jobs_stable page_rerendering (Some ''Quality Assurance'')
          (Some ''Istanbul, Turkiye'') 3 world0 = (Inr True, w') \<and>
     job_samples (since world0 w') =
       [[sales_card, sales_card], [sales_card, sales_card], [sales_card, sales_card],
        [qa_card, sales_card]] \<and>
     (\<exists>k<length (job_samples (since world0 w')).
        any_job_matches (Some ''Quality Assurance'') (Some ''Istanbul, Turkiye'')
          (job_samples (since world0 w') ! k) \<and>
        3 \<le> int (criteria_checks (map length (take (Suc k) (job_samples (since world0 w'))))))"
proof -
  obtain w' where w': "wait_for_jobs_stable page_rerendering (Some ''Quality Assurance'')
          (Some ''Istanbul, Turkiye'') 3 world0 = (Inr True, w')"
     "job_samples (since world0 w') =
       [[sales_card, sales_card], [sales_card, sales_card], [sales_card, sales_card],
        [qa_card, sales_card]]"
    using page_rerendering_run by auto
  have "(Inr True = (Inr True :: exn + bool)) =
     (\<exists>k<length (job_samples (since world0 w')).
        any_job_matches (Some ''Quality Assurance'') (Some ''Istanbul, Turkiye'')
          (job_samples (since world0 w') ! k) \<and>
        3 \<le> int (criteria_checks (map length (take (Suc k) (job_samples (since world0 w'))))))"
    by (rule wait_for_jobs_stable_criteria_success
          [of "[]" 0 page_rerendering "Some ''Quality Assurance''" "Some ''Istanbul, Turkiye''" 3
              world0 "Inr True" w' "[]", THEN conjunct2, THEN conjunct1, THEN mp])
       (simp add: w'(1))
  then have "\<exists>k<length (job_samples (since world0 w')).
        any_job_matches (Some ''Quality Assurance'') (Some ''Istanbul, Turkiye'')
          (job_samples (since world0 w') ! k) \<and>
        3 \<le> int (criteria_checks (map length (take (Suc k) (job_samples (since world0 w')))))"
    by (simp only: simp_thms)
  then show ?thesis using w' by (intro exI [of _ w']) simp
qed

text \<open>
  Claim C9. With a department or location criterion, when the detector returns \<open>True\<close>
  the last thing it did was to sample a non-empty card collection in which some card
  satisfies the criterion; so it never reports success over an empty collection, although
  in this mode the counter advances over empty samples (after \<open>n\<close> empty samples it is
  \<open>n\<close>), while without criteria it stays at 1.
\<close>

theorem wait_for_jobs_stable_criteria_match:
  "(wait_for_jobs_stable env ed el m w = (Inr True, w') \<and> (truthy ed \<or> truthy el) \<longrightarrow>
      (\<exists>jobs. since w w' \<noteq> [] \<and> last (since w w') = JobsSampled (Inr jobs) \<and> jobs \<noteq> [] \<and>
         (\<exists>job\<in>set jobs. job_matches ed el job = Inr True))) \<and>
   criteria_checks (replicate n 0) = n \<and> plain_checks (replicate (Suc n) 0) = 1"
proof (intro conjI impI)
  assume a: "wait_for_jobs_stable env ed el m w = (Inr True, w') \<and> (truthy ed \<or> truthy el)"
  then obtain jobs where j: "since w w' \<noteq> []" "last (since w w') = JobsSampled (Inr jobs)"
    "last (job_samples (since w w')) = jobs"
    using stable_last_sample by blast
  from a stable_run [of env ed el m w "Inr True" w']
  have "any_job_matches ed el (last (job_samples (since w w')))"
    by (auto simp: stable_observed_def exits_def)
  then have "\<exists>job\<in>set jobs. job_matches ed el job = Inr True"
    using j(3) any_job_matches_iff by blast
  then show "\<exists>jobs. since w w' \<noteq> [] \<and> last (since w w') = JobsSampled (Inr jobs) \<and> jobs \<noteq> [] \<and>
         (\<exists>job\<in>set jobs. job_matches ed el job = Inr True)"
    using j by auto
next
  show "criteria_checks (replicate n 0) = n" by (rule criteria_checks_empty)
next
  show "plain_checks (replicate (Suc n) 0) = 1" by (rule plain_checks_empty)
qed

lemma page_filling_run:
  "\<exists>w'. wait_for_jobs_stable page_filling (Some ''Quality Assurance'') None 2 world0 = (Inr True, w') \<and>
     job_samples (since world0 w') = [[], [], [qa_card], [qa_card]] \<and>
     last (since world0 w') = JobsSampled (Inr [qa_card])"
  by (simp add: stable_eval page_filling_def since_def)

theorem wait_for_jobs_stable_criteria_match_witness:
  "\<exists>w'. wait_for_jobs_stable page_filling (Some ''Quality Assurance'') None 2 world0 = (Inr True, w') \<and>
     job_samples (since world0 w') = [[], [], [qa_card], [qa_card]] \<and>
     last (since world0 w') = JobsSampled (Inr [qa_card]) \<and>
     (\<exists>jobs. since world0 w' \<noteq> [] \<and> last (since world0 w') = JobsSampled (Inr jobs) \<and>
        jobs \<noteq> [] \<and>
        (\<exists>job\<in>set jobs. job_matches (Some ''Quality Assurance'') None job = Inr True)) \<and>
     criteria_checks (replicate 2 0) = 2 \<and> plain_checks (replicate (Suc 2) 0) = 1"
proof -
  obtain w' where w': "wait_for_jobs_stable page_filling (Some ''Quality Assurance'') None 2 world0 = (Inr True, w')"
     "job_samples (since world0 w') = [[], [], [qa_card], [qa_card]]"
     "last (since world0 w') = JobsSampled (Inr [qa_card])"
    using page_filling_run by auto
  note inst = wait_for_jobs_stable_criteria_match
    [of page_filling "Some ''Quality Assurance''" None 2 world0 w' 2]
  have a: "\<exists>jobs. since world0 w' \<noteq> [] \<and> last (since world0 w') = JobsSampled (Inr jobs) \<and>
        jobs \<noteq> [] \<and>
        (\<exists>job\<in>set jobs. job_matches (Some ''Quality Assurance'') None job = Inr True)"
    by (rule inst [THEN conjunct1, THEN mp]) (simp add: w'(1))
  have b: "criteria_checks (replicate 2 0) = 2 \<and> plain_checks (replicate (Suc 2) 0) = 1"
    by (rule inst [THEN conjunct2])
  show ?thesis using w' a b by (intro exI [of _ w']) simp
qed

subsection \<open>The facade\<close>

lemma until_pause_cases:
  "until_pause end_time w1 = Return (r, w2) \<Longrightarrow>
     r = Inl (Exn TimeoutException (Text [])) \<and> w2 = sleep 500 w1 \<and> end_time < now w2"
  "until_pause end_time w1 = Continue w2 \<Longrightarrow> w2 = sleep 500 w1"
  by (auto simp: until_pause_def Let_def split: if_splits)

lemma until_body_Return:
  assumes "until_body env c end_time w = Return (r, w1)"
  shows "\<exists>x. (log w1 = log w @ [Probed c x] \<and> r = x \<and> \<not> unsatisfied x) \<or>
              (log w1 = log w @ [Probed c x, Slept 500] \<and> unsatisfied x \<and>
               r = Inl (Exn TimeoutException (Text [])) \<and> end_time < now w1)"
proof (cases "evaluate env c w")
  case (Inl e)
  show ?thesis using assms unfolding until_body_def call_condition_def Let_def Inl
    by (auto split: if_splits dest!: until_pause_cases)
next
  case (Inr v)
  show ?thesis using assms unfolding until_body_def call_condition_def Let_def Inr
    by (auto split: if_splits dest!: until_pause_cases)
qed

lemma until_body_Continue:
  assumes "until_body env c end_time w = Continue w1"
  shows "\<exists>x. log w1 = log w @ [Probed c x, Slept 500] \<and> unsatisfied x"
proof (cases "evaluate env c w")
  case (Inl e)
  show ?thesis using assms unfolding until_body_def call_condition_def Let_def Inl
    by (auto split: if_splits dest!: until_pause_cases)
next
  case (Inr v)
  show ?thesis using assms unfolding until_body_def call_condition_def Let_def Inr
    by (auto split: if_splits dest!: until_pause_cases)
qed

lemma until_observed_cons:
  assumes "until_observed c es r end_time t" and "unsatisfied x"
  shows "until_observed c ([Probed c x, Slept 500] @ es) r end_time t"
  using assms unfolding until_observed_def
  apply (elim disjE exE conjE)
    apply (rule disjI1, rule_tac x = v in exI, rule_tac x = "[Probed c x, Slept 500] @ es0" in exI, simp)
   apply (rule disjI2, rule disjI1, rule_tac x = e in exI,
      rule_tac x = "[Probed c x, Slept 500] @ es0" in exI, simp)
  apply (rule disjI2, rule disjI2, simp)
  done

lemma until_loop_run:
  "until_loop env c end_time w = (r, w') \<Longrightarrow>
   \<exists>es. log w' = log w @ es \<and> until_observed c es r end_time (now w')"
proof (induction env c end_time w arbitrary: r w' rule: until_loop.induct)
  case (1 env c end_time w)
  show ?case
  proof (cases "until_body env c end_time w")
    case (Return res)
    then have res: "res = (r, w')" using "1.prems" by (simp add: until_loop.simps)
    from until_body_Return [of env c end_time w r w'] Return res
    obtain x where x: "(log w' = log w @ [Probed c x] \<and> r = x \<and> \<not> unsatisfied x) \<or>
              (log w' = log w @ [Probed c x, Slept 500] \<and> unsatisfied x \<and>
               r = Inl (Exn TimeoutException (Text [])) \<and> end_time < now w')"
      by auto
    then show ?thesis
    proof
      assume a: "log w' = log w @ [Probed c x] \<and> r = x \<and> \<not> unsatisfied x"
      then have "until_observed c [Probed c x] r end_time (now w')"
        by (cases x) (auto simp: until_observed_def)
      then show ?thesis using a by auto
    next
      assume a: "log w' = log w @ [Probed c x, Slept 500] \<and> unsatisfied x \<and>
               r = Inl (Exn TimeoutException (Text [])) \<and> end_time < now w'"
      then have "until_observed c [Probed c x, Slept 500] r end_time (now w')"
        by (auto simp: until_observed_def)
      then show ?thesis using a by auto
    qed
  next
    case (Continue w1)
    from until_body_Continue [OF Continue]
    obtain x where x: "log w1 = log w @ [Probed c x, Slept 500]" "unsatisfied x" by auto
    have run: "until_loop env c end_time w1 = (r, w')"
      using Continue "1.prems" by (simp add: until_loop.simps)
    from "1.IH" [OF Continue run]
    obtain es where es: "log w' = log w1 @ es" "until_observed c es r end_time (now w')"
      by auto
    have "until_observed c ([Probed c x, Slept 500] @ es) r end_time (now w')"
      using until_observed_cons [OF es(2) x(2)] .
    then show ?thesis using es x by auto
  qed
qed

lemma until_run:
  assumes "until env timeout c w = (r, w')"
  shows "\<exists>es. log w' = log w @ es \<and> until_observed c es r (now w + 1000 * timeout) (now w')"
  using assms until_loop_run unfolding until_def by blast

lemma until_Inr:
  assumes "until env timeout c w = (Inr v, w')"
  shows "truthy_value v \<and>
         (\<exists>es0. log w' = log w @ es0 @ [Probed c (Inr v)] \<and> (\<forall>e\<in>set es0. polling c e))"
  using until_run [OF assms] by (auto simp: until_observed_def)

lemma until_unsatisfied:
  assumes "until env timeout c w = (r, w')"
    and "\<forall>x. Probed c x \<in> set (since w w') \<longrightarrow> unsatisfied x"
  shows "r = Inl (Exn TimeoutException (Text []))"
proof -
  from until_run [OF assms(1)]
  obtain es where es: "log w' = log w @ es"
    "until_observed c es r (now w + 1000 * timeout) (now w')"
    by blast
  then have s: "since w w' = es" by simp
  show ?thesis
    using es(2) assms(2) unfolding s until_observed_def
    by (elim disjE exE conjE) auto
qed

lemma find_element_log:
  "find_element env locator timeout w = (r, w') \<Longrightarrow>
   \<exists>r0. until env timeout (presence_of_element_located locator) w = (r0, w')"
  by (auto simp: find_element_def split: prod.splits sum.splits if_splits)

lemmas until_eval = until_def until_loop.simps until_body_def until_pause_def
  call_condition_def driver_call_def sleep_def Let_def blank_page_def world0_def

text \<open>
  Claim C7, as stated, fails: \<open>find_elements\<close> does not convert the timeout, so when no
  element is ever present it fails with Selenium's \<open>TimeoutException\<close>, which is not a
  \<open>NoSuchElementException\<close>; and the message of \<open>find_element\<close> holds the locator only
  (\<open>ElementNotFound locator\<close>), not the condition.
\<close>

theorem find_elements_timeout_counterexample:
  "find_elements blank_page JOB_ITEMS 1 world0 =
     (Inl (Exn TimeoutException (Text [])),
      \<lparr>now = 1500,
       log = [Probed (presence_of_all_elements_located JOB_ITEMS)
                (Inl (Exn NoSuchElementException (Text []))), Slept 500,
              Probed (presence_of_all_elements_located JOB_ITEMS)
                (Inl (Exn NoSuchElementException (Text []))), Slept 500,
              Probed (presence_of_all_elements_located JOB_ITEMS)
                (Inl (Exn NoSuchElementException (Text []))), Slept 500]\<rparr>)
   \<and> class_of (Exn TimeoutException (Text [])) \<noteq> NoSuchElementException"
  by (simp add: find_elements_def until_eval)

text \<open>
  Claim C7, amended. When no poll of the run satisfies the awaited condition,
  \<open>find_element\<close> fails with a \<open>NoSuchElementException\<close> whose message carries the
  locator, and \<open>find_elements\<close> fails with an exception; neither of them ever returns a
  null or empty result: what they return is truthy.
\<close>

theorem find_element_not_found:
  "(find_element env locator timeout w = (r, w') \<and>
    (\<forall>x. Probed (presence_of_element_located locator) x \<in> set (since w w') \<longrightarrow> unsatisfied x)
      \<longrightarrow> r = Inl (Exn NoSuchElementException (ElementNotFound locator))) \<and>
   (find_elements env locator timeout w = (r, w') \<and>
    (\<forall>x. Probed (presence_of_all_elements_located locator) x \<in> set (since w w')
           \<longrightarrow> unsatisfied x)
      \<longrightarrow> isl r) \<and>
   (find_element env locator timeout w = (Inr v, w') \<longrightarrow> truthy_value v) \<and>
   (find_elements env locator timeout w = (Inr v, w') \<longrightarrow> truthy_value v)"
proof (intro conjI impI)
  assume a: "find_element env locator timeout w = (r, w') \<and>
    (\<forall>x. Probed (presence_of_element_located locator) x \<in> set (since w w') \<longrightarrow> unsatisfied x)"
  then obtain r0 where r0: "until env timeout (presence_of_element_located locator) w = (r0, w')"
    using find_element_log by blast
  then have "r0 = Inl (Exn TimeoutException (Text []))"
    using until_unsatisfied a by blast
  then show "r = Inl (Exn NoSuchElementException (ElementNotFound locator))"
    using a r0 by (simp add: find_element_def)
next
  assume a: "find_elements env locator timeout w = (r, w') \<and>
    (\<forall>x. Probed (presence_of_all_elements_located locator) x \<in> set (since w w')
           \<longrightarrow> unsatisfied x)"
  then have "r = Inl (Exn TimeoutException (Text []))"
    using until_unsatisfied unfolding find_elements_def by blast
  then show "isl r" by simp
next
  assume "find_element env locator timeout w = (Inr v, w')"
  then have "until env timeout (presence_of_element_located locator) w = (Inr v, w')"
    by (auto simp: find_element_def split: prod.splits sum.splits if_splits)
  then show "truthy_value v" using until_Inr by blast
next
  assume "find_elements env locator timeout w = (Inr v, w')"
  then show "truthy_value v" using until_Inr unfolding find_elements_def by blast
qed

lemma blank_page_find_element:
  "\<exists>w'. find_element blank_page JOB_ITEMS 1 world0 =
          (Inl (Exn NoSuchElementException (ElementNotFound JOB_ITEMS)), w') \<and>
        (\<forall>x. Probed (presence_of_element_located JOB_ITEMS) x \<in> set (since world0 w')
               \<longrightarrow> unsatisfied x)"
  by (auto simp: find_element_def until_eval since_def)

theorem find_element_not_found_witness:
  "\<exists>w'. find_element blank_page JOB_ITEMS 1 world0 =
          (Inl (Exn NoSuchElementException (ElementNotFound JOB_ITEMS)), w') \<and>
        (\<forall>x. Probed (presence_of_element_located JOB_ITEMS) x \<in> set (since world0 w')
               \<longrightarrow> unsatisfied x)"
proof -
  obtain r w' where run: "find_element blank_page JOB_ITEMS 1 world0 = (r, w')"
    and u: "\<forall>x. Probed (presence_of_element_located JOB_ITEMS) x \<in> set (since world0 w')
               \<longrightarrow> unsatisfied x"
    using blank_page_find_element by blast
  have "r = Inl (Exn NoSuchElementException (ElementNotFound JOB_ITEMS))"
    by (rule find_element_not_found [of blank_page JOB_ITEMS 1 world0 r w' NoneValue,
          THEN conjunct1, THEN mp]) (use run u in blast)
  then show ?thesis using run u by blast
qed

subsection \<open>The filters\<close>

lemma dispatched_append [simp]: "dispatched (xs @ ys) = dispatched xs @ dispatched ys"
  by (induction xs rule: dispatched.induct) auto

lemma dispatched_no_script: "\<forall>e\<in>set es. \<not> is_script e \<Longrightarrow> dispatched es = []"
  by (induction es rule: dispatched.induct) auto

lemma polling_no_script: "polling c e \<Longrightarrow> \<not> is_script e"
  by (cases e) auto

lemma gate_event_no_script: "gate_event e \<Longrightarrow> \<not> is_script e"
  by (cases e) auto

lemma then_do_InrE:
  assumes "then_do m f = (Inr y, w')"
  obtains x w1 where "m = (Inr x, w1)" and "f x w1 = (Inr y, w')"
  using assms by (auto simp: then_do_def split: prod.splits sum.splits)

lemma gate_loop_events:
  "gate_loop env s mw st = (r, w') \<Longrightarrow>
   \<exists>es. log w' = log (snd st) @ es \<and> (\<forall>e\<in>set es. gate_event e)"
proof (induction env s mw st arbitrary: r w' rule: gate_loop.induct)
  case (1 env s mw st)
  obtain v w where st: "st = (v, w)" by (cases st)
  show ?case
  proof (cases "now w < mw")
    case False
    then show ?thesis using "1.prems" st by (auto simp: gate_loop.simps)
  next
    case True
    show ?thesis
    proof (cases "gate_body env s st")
      case (Return res)
      then have res: "res = (r, w')" using True "1.prems"(1) st by (simp add: gate_loop.simps)
      from gate_body_Return [of env s v w r w'] Return res st
      show ?thesis using st by auto
    next
      case (Continue st')
      obtain v1 w1 where st': "st' = (v1, w1)" by (cases st')
      from gate_body_Continue [of env s v w v1 w1] Continue st st'
      obtain x where x: "log w1 = log w @ [DepartmentRead x, Slept 1000]" by auto
      have run: "gate_loop env s mw st' = (r, w')"
        using True Continue "1.prems"(1) st by (simp add: gate_loop.simps)
      from "1.IH" [OF _ Continue run] True st st'
      obtain es where es: "log w' = log w1 @ es" "\<forall>e\<in>set es. gate_event e"
        by auto
      have "log w' = log w @ ([DepartmentRead x, Slept 1000] @ es)"
        "\<forall>e\<in>set ([DepartmentRead x, Slept 1000] @ es). gate_event e"
        using es x by auto
      then show ?thesis using st by (metis snd_conv)
    qed
  qed
qed

lemma gate_events:
  assumes "ensure_department_not_all env timeout w = (r, w')"
  shows "\<exists>es. log w' = log w @ es \<and> (\<forall>e\<in>set es. gate_event e)"
  using gate_loop_events [of env "now w" "now w + 1000 * timeout"
      "(\<lparr>last_department_text = None, consecutive_element_failures = 0\<rparr>, w)" r w'] assms
  by (simp add: ensure_department_not_all_def)

lemma stable_loop_events:
  "stable_loop env ed el m T st = (r, w') \<Longrightarrow>
   \<exists>es. log w' = log (snd st) @ es \<and> (\<forall>e\<in>set es. \<not> is_script e)"
proof (induction env ed el m T st arbitrary: r w' rule: stable_loop.induct)
  case (1 env ed el m T st)
  obtain v w where st: "st = (v, w)" by (cases st)
  show ?case
  proof (cases "now w < T")
    case False
    then show ?thesis using "1.prems" st by (auto simp: stable_loop.simps)
  next
    case True
    show ?thesis
    proof (cases "stable_body env ed el m st")
      case (Return res)
      then have res: "res = (r, w')" using True "1.prems"(1) st by (simp add: stable_loop.simps)
      from stable_body_Return [of env ed el m v w r w'] Return res st
      show ?thesis using st by auto
    next
      case (Continue st')
      obtain v1 w1 where st': "st' = (v1, w1)" by (cases st')
      from stable_body_Continue [of env ed el m v w v1 w1] Continue st st'
      obtain jobs where x: "log w1 = log w @ [JobsSampled (Inr jobs), Slept 1000]" by auto
      have run: "stable_loop env ed el m T st' = (r, w')"
        using True Continue "1.prems"(1) st by (simp add: stable_loop.simps)
      from "1.IH" [OF _ Continue run] True st st'
      obtain es where es: "log w' = log w1 @ es" "\<forall>e\<in>set es. \<not> is_script e"
        by auto
      have "log w' = log w @ ([JobsSampled (Inr jobs), Slept 1000] @ es)"
        "\<forall>e\<in>set ([JobsSampled (Inr jobs), Slept 1000] @ es). \<not> is_script e"
        using es x by auto
      then show ?thesis using st by (metis snd_conv)
    qed
  qed
qed

lemma stable_quiet:
  assumes "wait_for_jobs_stable env ed el m w = (r, w')"
  shows "\<exists>es. log w' = log w @ es \<and> dispatched es = []"
proof -
  from stable_loop_events [of env ed el m "now w + 1000 * WAIT_TIME"
      "(\<lparr>stable_count = None, stable_checks = 0\<rparr>, w)" r w'] assms
  obtain es where "log w' = log w @ es" "\<forall>e\<in>set es. \<not> is_script e"
    by (auto simp: wait_for_jobs_stable_def)
  then show ?thesis using dispatched_no_script by blast
qed

lemma until_Inr_quiet:
  assumes "until env timeout c w = (Inr v, w')"
  shows "\<exists>es0. log w' = log w @ es0 @ [Probed c (Inr v)] \<and> dispatched es0 = [] \<and> truthy_value v"
proof -
  from until_Inr [OF assms]
  obtain es0 where "log w' = log w @ es0 @ [Probed c (Inr v)]" "\<forall>e\<in>set es0. polling c e"
    "truthy_value v"
    by blast
  then show ?thesis using dispatched_no_script polling_no_script by blast
qed

lemma click_Inr_quiet:
  assumes "click env locator timeout w = (Inr a, w')"
  shows "\<exists>es. log w' = log w @ es \<and> dispatched es = []"
proof -
  from assms obtain el w1 where u: "until env timeout (element_to_be_clickable locator) w = (Inr el, w1)"
    and c: "native_click env el w1 = (Inr a, w')"
    unfolding click_def by (elim then_do_InrE)
  from until_Inr_quiet [OF u] obtain es0 where
    es0: "log w1 = log w @ es0 @ [Probed (element_to_be_clickable locator) (Inr el)]"
      "dispatched es0 = []"
    by blast
  from c have "log w' = log w1 @ [Clicked el (Inr a)]"
    by (auto simp: native_click_def Let_def)
  then have "log w' = log w @ (es0 @ [Probed (element_to_be_clickable locator) (Inr el),
      Clicked el (Inr a)])"
    "dispatched (es0 @ [Probed (element_to_be_clickable locator) (Inr el),
      Clicked el (Inr a)]) = []"
    using es0 by simp_all
  then show ?thesis by blast
qed

lemma execute_script_Inr:
  assumes "execute_script env js args w = (Inr x, w')"
  shows "log w' = log w @ [ScriptRun js args (Inr x)]"
  using assms by (auto simp: execute_script_def Let_def)

lemma activation_tail:
  assumes s5: "execute_script env offset_script [opt] w4 = (Inr pos, w5)"
    and s6: "execute_script env scroll_script [panel, pos] w5 = (Inr a6, w6)"
    and s7: "execute_script env activate_script [opt] w6 = (Inr a7, w7)"
    and s8: "until env WAIT_TIME (presence_of_all_elements_located JOB_ITEMS) w7 = (Inr v8, w8)"
    and s9: "until env WAIT_TIME (element_to_be_clickable JOB_ITEMS) w8 = (Inr v9, w9)"
    and s10: "wait_for_jobs_stable env ed el m w9 = (Inr a10, w')"
    and pre: "log w4 = log w @ pre" "dispatched pre = []"
      "Probed (presence_of_element_located option_locator) (Inr opt) \<in> set pre"
  shows "option_activated option_locator (since w w')"
proof -
  note l5 = execute_script_Inr [OF s5]
  note l6 = execute_script_Inr [OF s6]
  note l7 = execute_script_Inr [OF s7]
  from until_Inr_quiet [OF s8] obtain e8 where
    e8: "log w8 = log w7 @ e8 @ [Probed (presence_of_all_elements_located JOB_ITEMS) (Inr v8)]"
      "dispatched e8 = []" "truthy_value v8"
    by blast
  from until_Inr_quiet [OF s9] obtain e9 where
    e9: "log w9 = log w8 @ e9 @ [Probed (element_to_be_clickable JOB_ITEMS) (Inr v9)]"
      "dispatched e9 = []" "truthy_value v9"
    by blast
  from stable_quiet [OF s10] obtain e10 where
    e10: "log w' = log w9 @ e10" "dispatched e10 = []"
    by blast
  define pre' where "pre' = pre @ [ScriptRun offset_script [opt] (Inr pos),
    ScriptRun scroll_script [panel, pos] (Inr a6)]"
  have lg: "log w' = log w @ (pre' @ [ScriptRun activate_script [opt] (Inr a7)] @ e8
               @ [Probed (presence_of_all_elements_located JOB_ITEMS) (Inr v8)] @ e9
               @ [Probed (element_to_be_clickable JOB_ITEMS) (Inr v9)] @ e10)"
    using l5 l6 l7 e8(1) e9(1) e10(1) pre(1) by (simp add: pre'_def)
  have sn: "since w w' = pre' @ [ScriptRun activate_script [opt] (Inr a7)] @ e8
               @ [Probed (presence_of_all_elements_located JOB_ITEMS) (Inr v8)] @ e9
               @ [Probed (element_to_be_clickable JOB_ITEMS) (Inr v9)] @ e10"
    using since_append [OF lg] .
  have dp: "dispatched pre' = []"
    using pre(2) by (simp add: pre'_def offset_script_def scroll_script_def)
  have mem: "Probed (presence_of_element_located option_locator) (Inr opt) \<in> set pre'"
    using pre(3) by (simp add: pre'_def)
  have d: "dispatched (since w w') = [(''mousedown'', opt), (''mouseup'', opt), (''click'', opt)]"
    unfolding sn using dp e8(2) e9(2) e10(2) by (simp add: activate_script_def)
  show ?thesis
    unfolding option_activated_def
    using sn mem e8(3) e9(3) d by blast
qed

lemma filter_by_department_activates:
  assumes run: "filter_by_department env department w = (Inr (), w')"
  shows "option_activated (department_locator department) (since w w')"
proof -
  from run obtain a1 w1 panel w2 a3 w3 opt w4 pos w5 a6 w6 a7 w7 v8 w8 v9 w9 a10 w10 where
    s1: "click env DEPARTMENT_FILTER 15 w = (Inr a1, w1)" and
    s2: "until env WAIT_TIME (visibility_of_element_located options_panel) w1 = (Inr panel, w2)" and
    s3: "until env WAIT_TIME (presence_of_all_elements_located options) w2 = (Inr a3, w3)" and
    s4: "until env WAIT_TIME (presence_of_element_located (department_locator department)) w3
           = (Inr opt, w4)" and
    s5: "execute_script env offset_script [opt] w4 = (Inr pos, w5)" and
    s6: "execute_script env scroll_script [panel, pos] w5 = (Inr a6, w6)" and
    s7: "execute_script env activate_script [opt] w6 = (Inr a7, w7)" and
    s8: "until env WAIT_TIME (presence_of_all_elements_located JOB_ITEMS) w7 = (Inr v8, w8)" and
    s9: "until env WAIT_TIME (element_to_be_clickable JOB_ITEMS) w8 = (Inr v9, w9)" and
    s10: "wait_for_jobs_stable env (Some department) None 2 w9 = (Inr a10, w10)" and
    fin: "w10 = w'"
    unfolding filter_by_department_def by (elim then_do_InrE) auto
  from click_Inr_quiet [OF s1] obtain e1 where e1: "log w1 = log w @ e1" "dispatched e1 = []"
    by blast
  from until_Inr_quiet [OF s2] obtain e2 where
    e2: "log w2 = log w1 @ e2 @ [Probed (visibility_of_element_located options_panel) (Inr panel)]"
      "dispatched e2 = []"
    by blast
  from until_Inr_quiet [OF s3] obtain e3 where
    e3: "log w3 = log w2 @ e3 @ [Probed (presence_of_all_elements_located options) (Inr a3)]"
      "dispatched e3 = []"
    by blast
  from until_Inr_quiet [OF s4] obtain e4 where
    e4: "log w4 = log w3 @ e4 @ [Probed (presence_of_element_located
            (department_locator department)) (Inr opt)]"
      "dispatched e4 = []"
    by blast
  define pre where "pre = e1 @ e2 @ [Probed (visibility_of_element_located options_panel) (Inr panel)]
    @ e3 @ [Probed (presence_of_all_elements_located options) (Inr a3)]
    @ e4 @ [Probed (presence_of_element_located (department_locator department)) (Inr opt)]"
  have p: "log w4 = log w @ pre" "dispatched pre = []"
    "Probed (presence_of_element_located (department_locator department)) (Inr opt) \<in> set pre"
    using e1 e2 e3 e4 by (simp_all add: pre_def)
  show ?thesis
    using activation_tail [OF s5 s6 s7 s8 s9 s10 [unfolded fin] p] .
qed


lemma filter_by_location_activates:
  assumes run: "filter_by_location env location ed w = (Inr (), w')"
  shows "option_activated (location_locator location) (since w w')"
proof -
  from run obtain b wg a1 w1 a2 w2 a3 w3 panel w4 a5 w5 a6 w6 opt w7 a8 w8 pos w9 a10 w10
      a11 w11 v12 w12 v13 w13 a14 w14 where
    s0: "ensure_department_not_all env 10 w = (Inr b, wg)" and
    s1: "until env WAIT_TIME (visibility_of_element_located LOCATION_FILTER) wg = (Inr a1, w1)" and
    s2: "until env WAIT_TIME (element_to_be_clickable LOCATION_FILTER) w1 = (Inr a2, w2)" and
    s3: "click env LOCATION_FILTER 15 w2 = (Inr a3, w3)" and
    s4: "until env WAIT_TIME (visibility_of_element_located options_panel) w3 = (Inr panel, w4)" and
    s5: "until env WAIT_TIME (presence_of_all_elements_located options) w4 = (Inr a5, w5)" and
    s6: "until env WAIT_TIME (visibility_of_any_elements_located options) w5 = (Inr a6, w6)" and
    s7: "until env WAIT_TIME (presence_of_element_located (location_locator location)) w6
           = (Inr opt, w7)" and
    s8: "until env WAIT_TIME (element_to_be_clickable (location_locator location)) w7
           = (Inr a8, w8)" and
    s9: "execute_script env offset_script [opt] w8 = (Inr pos, w9)" and
    s10: "execute_script env scroll_script [panel, pos] w9 = (Inr a10, w10)" and
    s11: "execute_script env activate_script [opt] w10 = (Inr a11, w11)" and
    s12: "until env WAIT_TIME (presence_of_all_elements_located JOB_ITEMS) w11 = (Inr v12, w12)" and
    s13: "until env WAIT_TIME (element_to_be_clickable JOB_ITEMS) w12 = (Inr v13, w13)" and
    s14: "wait_for_jobs_stable env (Some ed) (Some location) 3 w13 = (Inr a14, w14)" and
    fin: "w14 = w'"
    unfolding filter_by_location_def by (elim then_do_InrE) auto
  from gate_events [OF s0] obtain e0 where e0: "log wg = log w @ e0" "dispatched e0 = []"
    using dispatched_no_script gate_event_no_script by blast
  from until_Inr_quiet [OF s1] obtain e1 where
    e1: "log w1 = log wg @ e1 @ [Probed (visibility_of_element_located LOCATION_FILTER) (Inr a1)]"
      "dispatched e1 = []"
    by blast
  from until_Inr_quiet [OF s2] obtain e2 where
    e2: "log w2 = log w1 @ e2 @ [Probed (element_to_be_clickable LOCATION_FILTER) (Inr a2)]"
      "dispatched e2 = []"
    by blast
  from click_Inr_quiet [OF s3] obtain e3 where e3: "log w3 = log w2 @ e3" "dispatched e3 = []"
    by blast
  from until_Inr_quiet [OF s4] obtain e4 where
    e4: "log w4 = log w3 @ e4 @ [Probed (visibility_of_element_located options_panel) (Inr panel)]"
      "dispatched e4 = []"
    by blast
  from until_Inr_quiet [OF s5] obtain e5 where
    e5: "log w5 = log w4 @ e5 @ [Probed (presence_of_all_elements_located options) (Inr a5)]"
      "dispatched e5 = []"
    by blast
  from until_Inr_quiet [OF s6] obtain e6 where
    e6: "log w6 = log w5 @ e6 @ [Probed (visibility_of_any_elements_located options) (Inr a6)]"
      "dispatched e6 = []"
    by blast
  from until_Inr_quiet [OF s7] obtain e7 where
    e7: "log w7 = log w6 @ e7 @ [Probed (presence_of_element_located
            (location_locator location)) (Inr opt)]"
      "dispatched e7 = []"
    by blast
  from until_Inr_quiet [OF s8] obtain e8 where
    e8: "log w8 = log w7 @ e8 @ [Probed (element_to_be_clickable
            (location_locator location)) (Inr a8)]"
      "dispatched e8 = []"
    by blast
  define pre where "pre = e0
    @ e1 @ [Probed (visibility_of_element_located LOCATION_FILTER) (Inr a1)]
    @ e2 @ [Probed (element_to_be_clickable LOCATION_FILTER) (Inr a2)]
    @ e3
    @ e4 @ [Probed (visibility_of_element_located options_panel) (Inr panel)]
    @ e5 @ [Probed (presence_of_all_elements_located options) (Inr a5)]
    @ e6 @ [Probed (visibility_of_any_elements_located options) (Inr a6)]
    @ e7 @ [Probed (presence_of_element_located (location_locator location)) (Inr opt)]
    @ e8 @ [Probed (element_to_be_clickable (location_locator location)) (Inr a8)]"
  have p: "log w8 = log w @ pre" "dispatched pre = []"
    "Probed (presence_of_element_located (location_locator location)) (Inr opt) \<in> set pre"
    using e0 e1 e2 e3 e4 e5 e6 e7 e8 by (simp_all add: pre_def)
  show ?thesis
    using activation_tail [OF s9 s10 s11 s12 s13 s14 [unfolded fin] p] .
qed

subsection \<open>Operations only append to the log\<close>

lemma appends_then_do:
  assumes "appends m" and "\<And>x. appends (f x)"
  shows "appends (\<lambda>w. then_do (m w) f)"
  unfolding appends_def
proof (intro allI impI)
  fix w r w'
  assume a: "then_do (m w) f = (r, w')"
  obtain rm wm where m: "m w = (rm, wm)" by (cases "m w")
  then obtain es where es: "log wm = log w @ es" using assms(1) unfolding appends_def by blast
  show "\<exists>es. log w' = log w @ es"
  proof (cases rm)
    case (Inl e)
    then show ?thesis using a m es by (auto simp: then_do_def)
  next
    case (Inr x)
    then have "f x wm = (r, w')" using a m by (simp add: then_do_def)
    then obtain es' where "log w' = log wm @ es'" using assms(2) unfolding appends_def by blast
    then show ?thesis using es by simp
  qed
qed

lemma appends_return: "appends (\<lambda>w. (Inr x, w))"
  by (simp add: appends_def)

lemma appends_until: "appends (until env timeout c)"
  unfolding appends_def using until_run by blast

lemma appends_native_click: "appends (native_click env element)"
  by (auto simp: appends_def native_click_def Let_def)

lemma appends_execute_script: "appends (execute_script env js args)"
  by (auto simp: appends_def execute_script_def Let_def)

lemma appends_click: "appends (click env locator timeout)"
proof -
  have "appends (\<lambda>w. then_do (until env timeout (element_to_be_clickable locator) w)
       (\<lambda>element w. native_click env element w))"
    by (intro appends_then_do appends_until appends_native_click)
  then show ?thesis by (simp add: click_def [abs_def])
qed

lemma appends_wait_for_jobs_stable: "appends (wait_for_jobs_stable env ed el m)"
  unfolding appends_def using stable_run by blast

lemma appends_ensure_department_not_all: "appends (ensure_department_not_all env timeout)"
  unfolding appends_def using gate_run by blast

lemmas appends_intros = appends_then_do appends_return appends_until appends_click
  appends_execute_script appends_wait_for_jobs_stable appends_ensure_department_not_all

lemma then_do_first:
  assumes "then_do m f = (r, w')" and "\<And>x. appends (f x)"
  shows "\<exists>rm wm rest. m = (rm, wm) \<and> log w' = log wm @ rest \<and>
           (\<forall>e. rm = Inl e \<longrightarrow> r = Inl e \<and> rest = [])"
proof -
  obtain rm wm where m: "m = (rm, wm)" by (cases m)
  show ?thesis
  proof (cases rm)
    case (Inl e)
    then show ?thesis using assms(1) m by (auto simp: then_do_def)
  next
    case (Inr x)
    then have "f x wm = (r, w')" using assms(1) m by (simp add: then_do_def)
    then obtain es where "log w' = log wm @ es" using assms(2) unfolding appends_def by blast
    then show ?thesis using m Inr by auto
  qed
qed

lemma filter_by_location_gate_first:
  assumes run: "filter_by_location env location ed w = (r, w')"
  shows "\<exists>rg wg rest. ensure_department_not_all env 10 w = (rg, wg) \<and>
           since w w' = since w wg @ rest \<and>
           (\<forall>e\<in>set (since w wg). gate_event e) \<and>
           ((rg = Inr True \<and> since w wg \<noteq> [] \<and>
               (\<exists>x. last (since w wg) = DepartmentRead x \<and> selection_shown x)) \<or>
            (\<exists>e. rg = Inl e \<and> r = Inl e \<and> rest = []))"
proof -
  have "\<exists>rm wm rest. ensure_department_not_all env 10 w = (rm, wm) \<and> log w' = log wm @ rest \<and>
           (\<forall>e. rm = Inl e \<longrightarrow> r = Inl e \<and> rest = [])"
    by (rule then_do_first [OF run [unfolded filter_by_location_def]])
       (intro appends_intros)
  then obtain rg wg rest where g: "ensure_department_not_all env 10 w = (rg, wg)"
    and l: "log w' = log wg @ rest" and f: "\<forall>e. rg = Inl e \<longrightarrow> r = Inl e \<and> rest = []"
    by blast
  from gate_events [OF g] obtain ges where ges: "log wg = log w @ ges" "\<forall>e\<in>set ges. gate_event e"
    by blast
  then have sg: "since w wg = ges" by simp
  have sw: "since w w' = ges @ rest" using l ges(1) by simp
  note obs = gate_run [OF g, THEN conjunct1, unfolded gate_observed_def Let_def sg]
  have "(rg = Inr True \<and> ges \<noteq> [] \<and> (\<exists>x. last ges = DepartmentRead x \<and> selection_shown x)) \<or>
        (\<exists>e. rg = Inl e \<and> r = Inl e \<and> rest = [])"
    using obs f by auto
  then show ?thesis using g sw ges(2) sg by auto
qed


lemmas filter_eval = filter_by_location_def filter_by_department_def then_do_def click_def
  native_click_def execute_script_def until_eval stable_eval gate_eval
  LOCATION_FILTER_def DEPARTMENT_FILTER_def JOB_ITEMS_def options_panel_def options_def
  location_locator_def department_locator_def offset_script_def scroll_script_def
  activate_script_def page_ready_def page_ready_showing_all_def

text \<open>
  Claim C6, as stated, fails for \<open>filter_by_department\<close>, which does not invoke the gate:
  on a page whose department control shows "All" throughout, it clicks the department
  control at once and runs to its end without a single read of the control.
\<close>

theorem filter_by_department_ungated_counterexample:
  "department_control page_ready_showing_all world0 = Inr ''All'' \<and>
   fst (filter_by_department page_ready_showing_all ''Quality Assurance'' world0) = Inr () \<and>
   take 2 (log (snd (filter_by_department page_ready_showing_all ''Quality Assurance'' world0)))
     = [Probed (element_to_be_clickable DEPARTMENT_FILTER) (Inr (Element 1)),
        Clicked (Element 1) (Inr ())] \<and>
   department_reads
     (log (snd (filter_by_department page_ready_showing_all ''Quality Assurance'' world0))) = []"
  by (simp add: filter_eval)

text \<open>
  Claim C6, amended. \<open>filter_by_location\<close> first invokes the gate with a timeout of 10
  seconds: the events of its run are those of that gate call, followed by the rest; either
  the gate succeeded, and then its last event is a read of the department control that
  shows a selection other than "All", or the gate raised, and then the filter raises the
  same exception and does nothing else. So no interaction with the location filter begins
  while the control still shows "All".
\<close>

theorem filter_by_location_gated:
  "filter_by_location env location expected_department w = (r, w') \<longrightarrow>
     (\<exists>rg wg rest. ensure_department_not_all env 10 w = (rg, wg) \<and>
        since w w' = since w wg @ rest \<and>
        (\<forall>e\<in>set (since w wg). gate_event e) \<and>
        ((rg = Inr True \<and> since w wg \<noteq> [] \<and>
            (\<exists>x. last (since w wg) = DepartmentRead x \<and> selection_shown x)) \<or>
         (\<exists>e. rg = Inl e \<and> r = Inl e \<and> rest = [])))"
  using filter_by_location_gate_first [of env location expected_department w r w'] by blast

lemma blank_page_gate:
  "\<exists>wg. ensure_department_not_all blank_page 10 world0 =
      (Inl (Exn Exception (DepartmentStillAll 10000 (Some ''All''))), wg) \<and>
     length (since world0 wg) = 20"
  by (simp add: gate_eval since_def)

lemma blank_page_filter_by_location:
  "\<exists>w'. filter_by_location blank_page ''Istanbul, Turkiye'' ''Quality Assurance'' world0 =
      (Inl (Exn Exception (DepartmentStillAll 10000 (Some ''All''))), w') \<and>
     length (since world0 w') = 20"
proof -
  obtain wg where g: "ensure_department_not_all blank_page 10 world0 =
      (Inl (Exn Exception (DepartmentStillAll 10000 (Some ''All''))), wg)"
    "length (since world0 wg) = 20"
    using blank_page_gate by blast
  have "filter_by_location blank_page ''Istanbul, Turkiye'' ''Quality Assurance'' world0 =
      (Inl (Exn Exception (DepartmentStillAll 10000 (Some ''All''))), wg)"
    unfolding filter_by_location_def g(1) by (simp add: then_do_def)
  then show ?thesis using g(2) by blast
qed

theorem filter_by_location_gated_witness:
  "\<exists>w'. filter_by_location blank_page ''Istanbul, Turkiye'' ''Quality Assurance'' world0 =
      (Inl (Exn Exception (DepartmentStillAll 10000 (Some ''All''))), w') \<and>
     length (since world0 w') = 20 \<and>
     (\<forall>e\<in>set (since world0 w'). gate_event e)"
proof -
  obtain w' where run: "filter_by_location blank_page ''Istanbul, Turkiye''
      ''Quality Assurance'' world0 =
      (Inl (Exn Exception (DepartmentStillAll 10000 (Some ''All''))), w')"
    and len: "length (since world0 w') = 20"
    using blank_page_filter_by_location by blast
  from filter_by_location_gated [of blank_page "''Istanbul, Turkiye''" "''Quality Assurance''"
      world0 "Inl (Exn Exception (DepartmentStillAll 10000 (Some ''All'')))" w'] run
  obtain rg wg rest where g: "ensure_department_not_all blank_page 10 world0 = (rg, wg)"
    "since world0 w' = since world0 wg @ rest" "\<forall>e\<in>set (since world0 wg). gate_event e"
    "(rg = Inr True \<and> since world0 wg \<noteq> [] \<and>
            (\<exists>x. last (since world0 wg) = DepartmentRead x \<and> selection_shown x)) \<or>
         (\<exists>e. rg = Inl e \<and> rest = [])"
    by blast
  have "rg \<noteq> Inr True" using g(1) blank_page_gate by auto
  then have "rest = []" using g(4) by blast
  then have "\<forall>e\<in>set (since world0 w'). gate_event e" using g(2,3) by simp
  then show ?thesis using run len by blast
qed

subsection \<open>The events a filter dispatches, whatever its result\<close>

lemma quietly_then_do:
  assumes "quietly m" and "\<And>x. quietly (f x)"
  shows "quietly (\<lambda>w. then_do (m w) f)"
  unfolding quietly_def
proof (intro allI impI)
  fix w r w'
  assume a: "then_do (m w) f = (r, w')"
  obtain rm wm where m: "m w = (rm, wm)" by (cases "m w")
  then obtain es where es: "log wm = log w @ es" "dispatched es = []"
    using assms(1) unfolding quietly_def by blast
  show "\<exists>es. log w' = log w @ es \<and> dispatched es = []"
  proof (cases rm)
    case (Inl e)
    then show ?thesis using a m es by (auto simp: then_do_def)
  next
    case (Inr x)
    then have "f x wm = (r, w')" using a m by (simp add: then_do_def)
    then obtain es' where "log w' = log wm @ es'" "dispatched es' = []"
      using assms(2) unfolding quietly_def by blast
    then have "log w' = log w @ (es @ es')" "dispatched (es @ es') = []" using es by simp_all
    then show ?thesis by blast
  qed
qed

lemma activating_then_do:
  assumes "quietly m" and "\<And>x. activating (f x)"
  shows "activating (\<lambda>w. then_do (m w) f)"
  unfolding activating_def
proof (intro allI impI)
  fix w r w'
  assume a: "then_do (m w) f = (r, w')"
  obtain rm wm where m: "m w = (rm, wm)" by (cases "m w")
  then obtain es where es: "log wm = log w @ es" "dispatched es = []"
    using assms(1) unfolding quietly_def by blast
  show "\<exists>es. log w' = log w @ es \<and> (dispatched es = [] \<or> (\<exists>opt. dispatched es = activation opt))"
  proof (cases rm)
    case (Inl e)
    then show ?thesis using a m es by (auto simp: then_do_def)
  next
    case (Inr x)
    then have "f x wm = (r, w')" using a m by (simp add: then_do_def)
    then obtain es' where es': "log w' = log wm @ es'"
      "dispatched es' = [] \<or> (\<exists>opt. dispatched es' = activation opt)"
      using assms(2) unfolding activating_def by blast
    have "log w' = log w @ (es @ es')" "dispatched (es @ es') = dispatched es'"
      using es es'(1) by simp_all
    then show ?thesis using es'(2) by metis
  qed
qed

lemma activating_activate_script:
  assumes "\<And>x. quietly (f x)"
  shows "activating (\<lambda>w. then_do (execute_script env activate_script [opt] w) f)"
  unfolding activating_def
proof (intro allI impI)
  fix w r w'
  assume a: "then_do (execute_script env activate_script [opt] w) f = (r, w')"
  define x where "x = script_outcome env activate_script [opt] w"
  define w1 where "w1 = driver_call env (ScriptRun activate_script [opt] x) w"
  have ex: "execute_script env activate_script [opt] w = (x, w1)"
    by (simp add: execute_script_def Let_def x_def w1_def)
  have l1: "log w1 = log w @ [ScriptRun activate_script [opt] x]" by (simp add: w1_def)
  show "\<exists>es. log w' = log w @ es \<and> (dispatched es = [] \<or> (\<exists>opt. dispatched es = activation opt))"
  proof (cases x)
    case (Inl e)
    then have "w' = w1" using a ex by (simp add: then_do_def)
    moreover have "dispatched [ScriptRun activate_script [opt] x] = []" using Inl by simp
    ultimately show ?thesis using l1 by blast
  next
    case (Inr v)
    then have "f v w1 = (r, w')" using a ex by (simp add: then_do_def)
    then obtain es' where es': "log w' = log w1 @ es'" "dispatched es' = []"
      using assms unfolding quietly_def by blast
    have "log w' = log w @ ([ScriptRun activate_script [opt] x] @ es')"
      using l1 es'(1) by simp
    moreover have "dispatched ([ScriptRun activate_script [opt] x] @ es') = activation opt"
      using Inr es'(2) by (simp add: activate_script_def activation_def)
    ultimately show ?thesis by blast
  qed
qed

lemma quietly_return: "quietly (\<lambda>w. (Inr x, w))"
  by (simp add: quietly_def)

lemma quietly_until: "quietly (until env timeout c)"
  unfolding quietly_def
proof (intro allI impI)
  fix w r w'
  assume "until env timeout c w = (r, w')"
  from until_run [OF this] obtain es where es: "log w' = log w @ es"
    "until_observed c es r (now w + 1000 * timeout) (now w')"
    by blast
  have "\<forall>e\<in>set es. \<not> is_script e"
    using es(2) unfolding until_observed_def by (auto dest: polling_no_script)
  then show "\<exists>es. log w' = log w @ es \<and> dispatched es = []"
    using es(1) dispatched_no_script by blast
qed

lemma quietly_native_click: "quietly (native_click env element)"
  by (auto simp: quietly_def native_click_def Let_def)

lemma quietly_click: "quietly (click env locator timeout)"
proof -
  have "quietly (\<lambda>w. then_do (until env timeout (element_to_be_clickable locator) w)
       (\<lambda>element w. native_click env element w))"
    by (intro quietly_then_do quietly_until quietly_native_click)
  then show ?thesis by (simp add: click_def [abs_def])
qed

lemma quietly_offset_script: "quietly (execute_script env offset_script args)"
  unfolding quietly_def
proof (intro allI impI)
  fix w r w'
  assume "execute_script env offset_script args w = (r, w')"
  then have "log w' = log w @ [ScriptRun offset_script args r]"
    by (auto simp: execute_script_def Let_def)
  moreover have "dispatched [ScriptRun offset_script args r] = []"
    by (cases args; cases r) (simp_all add: offset_script_def)
  ultimately show "\<exists>es. log w' = log w @ es \<and> dispatched es = []" by blast
qed

lemma quietly_scroll_script: "quietly (execute_script env scroll_script args)"
  unfolding quietly_def
proof (intro allI impI)
  fix w r w'
  assume "execute_script env scroll_script args w = (r, w')"
  then have "log w' = log w @ [ScriptRun scroll_script args r]"
    by (auto simp: execute_script_def Let_def)
  moreover have "dispatched [ScriptRun scroll_script args r] = []"
    by (cases args; cases r) (simp_all add: scroll_script_def)
  ultimately show "\<exists>es. log w' = log w @ es \<and> dispatched es = []" by blast
qed

lemma quietly_wait_for_jobs_stable: "quietly (wait_for_jobs_stable env ed el m)"
  unfolding quietly_def using stable_quiet by blast

lemma quietly_ensure_department_not_all: "quietly (ensure_department_not_all env timeout)"
  unfolding quietly_def
  using gate_events dispatched_no_script gate_event_no_script by blast

lemmas quietly_intros = quietly_then_do quietly_return quietly_until quietly_click
  quietly_offset_script quietly_scroll_script quietly_wait_for_jobs_stable
  quietly_ensure_department_not_all

lemma activating_filter_by_location: "activating (filter_by_location env location ed)"
  unfolding filter_by_location_def [abs_def]
  by (intro activating_activate_script activating_then_do quietly_intros)

lemma activating_filter_by_department: "activating (filter_by_department env department)"
  unfolding filter_by_department_def [abs_def]
  by (intro activating_activate_script activating_then_do quietly_intros)

lemma filter_dispatches:
  "dispatched (since w (snd (filter_by_location env location ed w))) = [] \<or>
   (\<exists>opt. dispatched (since w (snd (filter_by_location env location ed w))) = activation opt)"
  "dispatched (since w (snd (filter_by_department env department w))) = [] \<or>
   (\<exists>opt. dispatched (since w (snd (filter_by_department env department w))) = activation opt)"
proof -
  obtain r w' where a: "filter_by_location env location ed w = (r, w')"
    by (cases "filter_by_location env location ed w")
  with activating_filter_by_location [of env location ed, unfolded activating_def]
  obtain es where "log w' = log w @ es"
    "dispatched es = [] \<or> (\<exists>opt. dispatched es = activation opt)"
    by blast
  then show "dispatched (since w (snd (filter_by_location env location ed w))) = [] \<or>
   (\<exists>opt. dispatched (since w (snd (filter_by_location env location ed w))) = activation opt)"
    using a by simp
next
  obtain r w' where a: "filter_by_department env department w = (r, w')"
    by (cases "filter_by_department env department w")
  with activating_filter_by_department [of env department, unfolded activating_def]
  obtain es where "log w' = log w @ es"
    "dispatched es = [] \<or> (\<exists>opt. dispatched es = activation opt)"
    by blast
  then show "dispatched (since w (snd (filter_by_department env department w))) = [] \<or>
   (\<exists>opt. dispatched (since w (snd (filter_by_department env department w))) = activation opt)"
    using a by simp
qed

text \<open>
  Claim C8. When \<open>filter_by_location\<close> or \<open>filter_by_department\<close> returns, its run
  executed the activation script on the option it had located, the DOM events dispatched
  in the run are mousedown, mouseup and click on that option, in this order, and after the
  activation both the wait for the presence of the job cards and the wait for a clickable
  job card succeeded. Whatever the result of a filter, also when it raises, the DOM events
  its run dispatched are none or exactly mousedown, mouseup, click on one element.
\<close>

theorem filters_activate_option_then_await_cards:
  "(filter_by_location env location expected_department w = (Inr (), w')
      \<longrightarrow> option_activated (location_locator location) (since w w')) \<and>
   (filter_by_department env department w = (Inr (), w')
      \<longrightarrow> option_activated (department_locator department) (since w w')) \<and>
   (dispatched (since w (snd (filter_by_location env location expected_department w))) = [] \<or>
    (\<exists>opt. dispatched (since w (snd (filter_by_location env location expected_department w)))
             = activation opt)) \<and>
   (dispatched (since w (snd (filter_by_department env department w))) = [] \<or>
    (\<exists>opt. dispatched (since w (snd (filter_by_department env department w)))
             = activation opt))"
  using filter_by_location_activates [of env location expected_department w w']
    filter_by_department_activates [of env department w w']
    filter_dispatches(1) [of w env location expected_department]
    filter_dispatches(2) [of w env department]
  by blast

lemma page_ready_filter_by_location:
  "\<exists>w1. filter_by_location page_ready ''Istanbul, Turkiye'' ''Quality Assurance'' world0
             = (Inr (), w1) \<and>
     dispatched (since world0 w1) =
       [(''mousedown'', Element 2), (''mouseup'', Element 2), (''click'', Element 2)]"
  by (simp add: filter_eval since_def)

lemma page_ready_filter_by_department:
  "\<exists>w2. filter_by_department page_ready ''Quality Assurance'' world0 = (Inr (), w2) \<and>
     dispatched (since world0 w2) =
       [(''mousedown'', Element 2), (''mouseup'', Element 2), (''click'', Element 2)]"
  by (simp add: filter_eval since_def)

theorem filters_activate_option_then_await_cards_witness:
  "\<exists>w1 w2. filter_by_location page_ready ''Istanbul, Turkiye'' ''Quality Assurance'' world0
             = (Inr (), w1) \<and>
     filter_by_department page_ready ''Quality Assurance'' world0 = (Inr (), w2) \<and>
     dispatched (since world0 w1) =
       [(''mousedown'', Element 2), (''mouseup'', Element 2), (''click'', Element 2)] \<and>
     option_activated (location_locator ''Istanbul, Turkiye'') (since world0 w1) \<and>
     option_activated (department_locator ''Quality Assurance'') (since world0 w2)"
proof -
  obtain w1 where
    r1: "filter_by_location page_ready ''Istanbul, Turkiye'' ''Quality Assurance'' world0
             = (Inr (), w1)" and
    d: "dispatched (since world0 w1) =
       [(''mousedown'', Element 2), (''mouseup'', Element 2), (''click'', Element 2)]"
    using page_ready_filter_by_location by blast
  obtain w2 where
    r2: "filter_by_department page_ready ''Quality Assurance'' world0 = (Inr (), w2)"
    using page_ready_filter_by_department by blast
  have a: "option_activated (location_locator ''Istanbul, Turkiye'') (since world0 w1)"
    using filters_activate_option_then_await_cards
      [of page_ready "''Istanbul, Turkiye''" "''Quality Assurance''" world0 w1
          "''Quality Assurance''"] r1
    by blast
  have b: "option_activated (department_locator ''Quality Assurance'') (since world0 w2)"
    using filters_activate_option_then_await_cards
      [of page_ready "''Istanbul, Turkiye''" "''Quality Assurance''" world0 w2
          "''Quality Assurance''"] r2
    by blast
  show ?thesis using r1 r2 d a b by blast
qed

end
